theory Spec2Isabelle
  imports Complex_Main "HOL-Library.AList" "HOL-Library.Log_Nat"
begin

chapter \<open>The model\<close>

section \<open>JavaScript strings\<close>

text \<open>
  The two scripts \<^verbatim>\<open>scripts/convert_intact_to_tsv.mjs\<close> and
  \<^verbatim>\<open>scripts/fetch_celestrak.mjs\<close> work on JavaScript strings. A string is
  modelled as a \<^typ>\<open>string\<close>, one \<^typ>\<open>char\<close> per code unit. The model covers
  the texts whose code units are below 256 (ASCII and Latin-1); the white space and the
  case mappings that Unicode has for code units from 256 on are outside the model.
\<close>

definition TAB :: char where
  "TAB = CHR 0x09"

definition LF :: char where
  "LF = CHR 0x0A"

definition CR :: char where
  "CR = CHR 0x0D"

definition is_ws :: "char \<Rightarrow> bool" where
  \<comment> \<open>WhiteSpace and LineTerminator of ECMA-262, below 256: TAB, LF, VT, FF, CR, SP
      and the no-break space.\<close>
  "is_ws c =
     (c \<in> set [CHR 0x09, CHR 0x0A, CHR 0x0B, CHR 0x0C, CHR 0x0D, CHR 0x20, CHR 0xA0])"

definition trim :: "string \<Rightarrow> string" where
  \<comment> \<open>\<^verbatim>\<open>String.prototype.trim\<close>\<close>
  "trim s = rev (dropWhile is_ws (rev (dropWhile is_ws s)))"

fun split_on :: "char \<Rightarrow> string \<Rightarrow> string \<Rightarrow> string list" where
  \<comment> \<open>\<^verbatim>\<open>s.split(/c/)\<close> for a single character; the second argument is the piece
      read so far, reversed.\<close>
  "split_on d cur [] = [rev cur]"
| "split_on d cur (c # s) =
     (if c = d then rev cur # split_on d [] s else split_on d (c # cur) s)"

definition split_tab :: "string \<Rightarrow> string list" where
  \<comment> \<open>\<^verbatim>\<open>s.split(/\t/)\<close>\<close>
  "split_tab s = split_on TAB [] s"

fun split_crlf :: "string \<Rightarrow> string \<Rightarrow> string list" where
  \<comment> \<open>\<^verbatim>\<open>s.split(/\r?\n/)\<close>: a line feed ends a piece, and takes a carriage return
      right before it along.\<close>
  "split_crlf cur [] = [rev cur]"
| "split_crlf cur [c] = (if c = LF then [rev cur, []] else [rev (c # cur)])"
| "split_crlf cur (c # c' # s) =
     (if c = CR \<and> c' = LF then rev cur # split_crlf [] s
      else if c = LF then rev cur # split_crlf [] (c' # s)
      else split_crlf (c # cur) (c' # s))"

fun join :: "string \<Rightarrow> string list \<Rightarrow> string" where
  \<comment> \<open>\<^verbatim>\<open>Array.prototype.join\<close> on an array of strings\<close>
  "join sep [] = []"
| "join sep [x] = x"
| "join sep (x # y # xs) = x @ sep @ join sep (y # xs)"

section \<open>The loader: \<^verbatim>\<open>parseTSV\<close>\<close>

text \<open>
  A parsed row is a JavaScript object with string values. Its own properties are kept
  as an association list in creation order; an assignment to an existing key replaces
  the value in place, an assignment to a new key appends (\<^const>\<open>AList.update\<close>).
  Reading a key the object does not have gives \<^verbatim>\<open>undefined\<close>, here \<^const>\<open>None\<close>.
\<close>

type_synonym row = "(string \<times> string) list"

datatype js_error = TypeError | Error string

definition row_get :: "row \<Rightarrow> string \<Rightarrow> string option" where
  \<comment> \<open>\<^verbatim>\<open>row[key]\<close>, for a key that \<^verbatim>\<open>Object.prototype\<close> does not define\<close>
  "row_get r k = map_of r k"

definition row_set :: "row \<Rightarrow> string \<Rightarrow> string \<Rightarrow> row" where
  \<comment> \<open>\<^verbatim>\<open>rec[key] = value\<close> on an object literal: the inherited setter of
      \<^verbatim>\<open>__proto__\<close> ignores a string, every other key becomes an own property.\<close>
  "row_set r k v = (if k = ''__proto__'' then r else AList.update k v r)"

definition mk_rec :: "string list \<Rightarrow> string list \<Rightarrow> row" where
  \<comment> \<open>\<^verbatim>\<open>const rec = {}; for (let j = 0; j < header.length; j++) rec[header[j]] = cols[j]\<close>,
      run where \<^verbatim>\<open>cols.length >= header.length\<close>\<close>
  "mk_rec header cols = fold (\<lambda>(h, c) r. row_set r h c) (zip header cols) []"

fun parse_rows :: "string list \<Rightarrow> string list \<Rightarrow> row list \<Rightarrow> row list" where
  \<comment> \<open>the loop over \<^verbatim>\<open>lines[1..]\<close>, with \<^verbatim>\<open>rows\<close> as accumulator\<close>
  "parse_rows header [] rows = rows"
| "parse_rows header (l # ls) rows =
     (let cols = split_tab l in
      if length cols < length header then parse_rows header ls rows
      else parse_rows header ls (rows @ [mk_rec header cols]))"

definition tsv_lines :: "string \<Rightarrow> string list" where
  \<comment> \<open>\<^verbatim>\<open>tsv.split(/\r?\n/).filter(Boolean)\<close>\<close>
  "tsv_lines tsv = filter (\<lambda>l. l \<noteq> []) (split_crlf [] tsv)"

definition parseTSV :: "string \<Rightarrow> js_error + (string list \<times> row list)" where
  \<comment> \<open>\<^verbatim>\<open>lines[0].split\<close> throws a TypeError when no line is left\<close>
  "parseTSV tsv =
     (case tsv_lines tsv of
        [] \<Rightarrow> Inl TypeError
      | l0 # ls \<Rightarrow> (let header = split_tab l0 in Inr (header, parse_rows header ls [])))"

section \<open>JavaScript numbers\<close>

text \<open>
  A Number is an IEEE 754 binary64 value. \<^verbatim>\<open>Fin q\<close> is the finite double whose exact
  value is the rational \<open>q\<close>; the two zeros are one value \<^verbatim>\<open>Fin 0\<close> (the scripts
  never divide by a zero that could be negative, and every test and conversion they
  apply treats \<^verbatim>\<open>-0\<close> as \<^verbatim>\<open>0\<close>). \<open>number_value\<close> is the rounding of a
  real number to the nearest double, ties to even, that ECMA-262 writes \<open>\<bbbF>\<close>.
\<close>

datatype jsnum = NaN | PInf | NInf | Fin rat

definition rat_exponent :: "rat \<Rightarrow> int" where
  \<comment> \<open>for \<open>0 < a\<close>, the \<open>e\<close> with \<open>2 powi e \<le> a < 2 powi (e + 1)\<close>\<close>
  "rat_exponent a =
     (let (p, q) = quotient_of a; d = bitlen p - bitlen q
      in if 2 powi d \<le> a then d else d - 1)"

definition round_half_even :: "rat \<Rightarrow> int" where
  "round_half_even x =
     (let f = \<lfloor>x\<rfloor>; r = x - of_int f
      in if r < 1 / 2 then f else if 1 / 2 < r then f + 1 else if even f then f else f + 1)"

definition number_value :: "rat \<Rightarrow> jsnum" where
  \<comment> \<open>53 significant bits, least exponent \<open>-1022\<close> (below it the spacing stays
      \<open>2 powi (-1074)\<close>). The rounded value is \<open>m * 2 powi (e - 52)\<close> with
      \<open>m \<le> 2 ^ 53\<close>; it overflows to an infinity when it reaches \<open>2 ^ 1024\<close>,
      that is when \<open>1024 \<le> e\<close>, or \<open>e = 1023\<close> and \<open>m = 2 ^ 53\<close>.\<close>
  "number_value x =
     (if x = 0 then Fin 0
      else let a = \<bar>x\<bar>;
               e = max (rat_exponent a) (- 1022);
               u = 2 powi (e - 52);
               m = round_half_even (a / u)
           in if 1024 \<le> e \<or> (e = 1023 \<and> m = 9007199254740992)
              then (if 0 < x then PInf else NInf)
              else Fin (if 0 < x then of_int m * u else - (of_int m * u)))"

definition isFinite :: "jsnum \<Rightarrow> bool" where
  \<comment> \<open>\<^verbatim>\<open>Number.isFinite\<close> on a Number\<close>
  "isFinite n = (case n of Fin _ \<Rightarrow> True | _ \<Rightarrow> False)"

fun js_less :: "jsnum \<Rightarrow> jsnum \<Rightarrow> bool" where
  \<comment> \<open>\<^verbatim>\<open>a < b\<close> on Numbers: false as soon as one side is NaN\<close>
  "js_less NaN _ = False"
| "js_less _ NaN = False"
| "js_less PInf _ = False"
| "js_less _ NInf = False"
| "js_less NInf _ = True"
| "js_less _ PInf = True"
| "js_less (Fin x) (Fin y) = (x < y)"

definition js_greater :: "jsnum \<Rightarrow> jsnum \<Rightarrow> bool" where
  \<comment> \<open>\<^verbatim>\<open>a > b\<close>\<close>
  "js_greater a b = js_less b a"

definition js_le :: "jsnum \<Rightarrow> jsnum \<Rightarrow> bool" where
  \<comment> \<open>\<^verbatim>\<open>a <= b\<close>\<close>
  "js_le a b = (a \<noteq> NaN \<and> b \<noteq> NaN \<and> \<not> js_less b a)"

subsection \<open>\<^verbatim>\<open>Number(string)\<close>\<close>

text \<open>
  The StringNumericLiteral grammar of ECMA-262: white space around the literal is
  dropped, the empty string is \<open>0\<close>, a decimal literal may carry a sign, a fraction and
  an exponent, \<^verbatim>\<open>Infinity\<close> may carry a sign, and the binary, octal and hexadecimal
  integer literals carry none. Everything else is \<^verbatim>\<open>NaN\<close>.
\<close>

definition is_digit :: "char \<Rightarrow> bool" where
  "is_digit c = (c \<in> set ''0123456789'')"

definition digit_of :: "char \<Rightarrow> int" where
  \<comment> \<open>the value of a digit of a radix up to 16\<close>
  "digit_of c =
     (if is_digit c then of_char c - 48
      else if c \<in> set ''abcdef'' then of_char c - 87
      else of_char c - 55)"

definition digits_value :: "int \<Rightarrow> string \<Rightarrow> int" where
  "digits_value radix s = foldl (\<lambda>n c. radix * n + digit_of c) 0 s"

definition signed_integer :: "string \<Rightarrow> int option" where
  \<comment> \<open>SignedInteger: decimal digits, after \<^verbatim>\<open>+\<close> or \<^verbatim>\<open>-\<close> or neither\<close>
  "signed_integer s =
     (let (neg, ds) = (case s of c # t \<Rightarrow>
                         if c = CHR ''-'' then (True, t)
                         else if c = CHR ''+'' then (False, t) else (False, s)
                       | [] \<Rightarrow> (False, s))
      in if ds = [] \<or> \<not> list_all is_digit ds then None
         else Some (if neg then - digits_value 10 ds else digits_value 10 ds))"

definition exponent_part :: "string \<Rightarrow> int option" where
  \<comment> \<open>ExponentPart, or nothing (exponent 0)\<close>
  "exponent_part s =
     (case s of [] \<Rightarrow> Some 0
      | c # t \<Rightarrow> if c = CHR ''e'' \<or> c = CHR ''E'' then signed_integer t else None)"

definition unsigned_decimal :: "string \<Rightarrow> rat option" where
  \<comment> \<open>StrUnsignedDecimalLiteral other than \<^verbatim>\<open>Infinity\<close>: its mathematical value\<close>
  "unsigned_decimal s =
     (let ip = takeWhile is_digit s; r1 = dropWhile is_digit s;
          (fp, r2) = (case r1 of c # t \<Rightarrow>
                        if c = CHR ''.'' then (takeWhile is_digit t, dropWhile is_digit t)
                        else ([], r1)
                      | [] \<Rightarrow> ([], r1))
      in if ip = [] \<and> fp = [] then None
         else case exponent_part r2 of
                None \<Rightarrow> None
              | Some ex \<Rightarrow>
                  Some ((of_int (digits_value 10 ip) +
                         of_int (digits_value 10 fp) / 10 ^ length fp) * 10 powi ex))"

definition radix_of_prefix :: "string \<Rightarrow> (int \<times> string) option" where
  \<comment> \<open>the radix and the digits of a NonDecimalIntegerLiteral\<close>
  "radix_of_prefix s =
     (case s of
        c0 # c1 # ds \<Rightarrow>
          if c0 \<noteq> CHR ''0'' then None
          else if c1 = CHR ''x'' \<or> c1 = CHR ''X'' then Some (16, ds)
          else if c1 = CHR ''o'' \<or> c1 = CHR ''O'' then Some (8, ds)
          else if c1 = CHR ''b'' \<or> c1 = CHR ''B'' then Some (2, ds)
          else None
      | _ \<Rightarrow> None)"

definition is_digit_of_radix :: "int \<Rightarrow> char \<Rightarrow> bool" where
  "is_digit_of_radix radix c =
     ((is_digit c \<or> c \<in> set ''abcdefABCDEF'') \<and> digit_of c < radix)"

definition StringToNumber :: "string \<Rightarrow> jsnum" where
  "StringToNumber s =
     (let t = trim s in
      if t = [] then Fin 0
      else case radix_of_prefix t of
        Some (radix, ds) \<Rightarrow>
          if ds \<noteq> [] \<and> list_all (is_digit_of_radix radix) ds
          then number_value (of_int (digits_value radix ds)) else NaN
      | None \<Rightarrow>
          (let (neg, u) = (case t of c # r \<Rightarrow>
                             if c = CHR ''-'' then (True, r)
                             else if c = CHR ''+'' then (False, r) else (False, t)
                           | [] \<Rightarrow> (False, t))
           in if u = ''Infinity'' then (if neg then NInf else PInf)
              else case unsigned_decimal u of
                     None \<Rightarrow> NaN
                   | Some v \<Rightarrow> number_value (if neg then - v else v)))"

definition Number_of_field :: "string option \<Rightarrow> jsnum" where
  \<comment> \<open>\<^verbatim>\<open>Number(row[key])\<close>: \<^verbatim>\<open>Number(undefined)\<close> is \<^verbatim>\<open>NaN\<close>\<close>
  "Number_of_field v = (case v of None \<Rightarrow> NaN | Some s \<Rightarrow> StringToNumber s)"

section \<open>The conversion script \<^verbatim>\<open>convert_intact_to_tsv.mjs\<close>\<close>

subsection \<open>Reading the source file\<close>

definition BACKTICK :: char where
  "BACKTICK = CHR 0x60"

fun index_sub :: "string \<Rightarrow> string \<Rightarrow> nat option" where
  \<comment> \<open>\<^verbatim>\<open>text.indexOf(pat)\<close>; \<^const>\<open>None\<close> is \<^verbatim>\<open>-1\<close>\<close>
  "index_sub pat [] = (if pat = [] then Some 0 else None)"
| "index_sub pat (c # s) =
     (if take (length pat) (c # s) = pat then Some 0 else map_option Suc (index_sub pat s))"

definition str_includes :: "string \<Rightarrow> string \<Rightarrow> bool" where
  \<comment> \<open>\<^verbatim>\<open>s.includes(pat)\<close>\<close>
  "str_includes s pat = (index_sub pat s \<noteq> None)"

definition extractBacktick :: "string \<Rightarrow> string \<Rightarrow> js_error + string" where
  "extractBacktick name txt =
     (let marker = ''var '' @ name @ '' = '' @ [BACKTICK] in
      case index_sub marker txt of
        None \<Rightarrow> Inl (Error (''Could not find start marker for '' @ name))
      | Some start \<Rightarrow>
          (let rest = drop (start + length marker) txt in
           case index_sub [BACKTICK] rest of
             None \<Rightarrow> Inl (Error (''Could not find end backtick for '' @ name))
           | Some e \<Rightarrow> Inr (trim (take e rest))))"

definition upper_char :: "char \<Rightarrow> string" where
  \<comment> \<open>the upper case of one code unit below 256: the letters a to z and the Latin-1
      letters from 0xE0 to 0xFE (0xF7 is the division sign) move down by 32, the sharp
      s becomes SS. The capitals of the micro sign and of y with diaeresis lie beyond
      255; the two are left as they are, which changes no comparison the scripts
      make (they compare with ASCII letters only).\<close>
  "upper_char c =
     (let n = (of_char c :: int) in
      if (97 \<le> n \<and> n \<le> 122) \<or> (224 \<le> n \<and> n \<le> 254 \<and> n \<noteq> 247) then [char_of (n - 32)]
      else if n = 223 then ''SS''
      else [c])"

definition toUpperCase :: "string \<Rightarrow> string" where
  \<comment> \<open>\<^verbatim>\<open>String.prototype.toUpperCase\<close>\<close>
  "toUpperCase s = concat (map upper_char s)"

definition mapOrbitType :: "string \<Rightarrow> string" where
  \<comment> \<open>\<^verbatim>\<open>(ch || '')\<close> is \<^verbatim>\<open>ch\<close> for a string\<close>
  "mapOrbitType ch =
     (let u = toUpperCase (trim ch) in
      if u = ''L'' then ''LEO''
      else if u = ''M'' then ''MEO''
      else if u = ''G'' then ''GEO''
      else if u = ''H'' then ''HEO''
      else '''')"

definition or_empty :: "string option \<Rightarrow> string" where
  \<comment> \<open>\<^verbatim>\<open>v ?? ''\<close>\<close>
  "or_empty v = (case v of None \<Rightarrow> '''' | Some s \<Rightarrow> s)"

definition String_of :: "string option \<Rightarrow> string" where
  \<comment> \<open>\<^verbatim>\<open>String(v)\<close>: \<^verbatim>\<open>String(undefined)\<close> is the text \<^verbatim>\<open>undefined\<close>\<close>
  "String_of v = (case v of None \<Rightarrow> ''undefined'' | Some s \<Rightarrow> s)"

subsection \<open>The data sources\<close>

text \<open>
  A JavaScript \<^verbatim>\<open>Map\<close> with string keys iterates in the order in which its keys were
  first set, and setting a key it has keeps the key's place: an association list with
  \<^const>\<open>AList.update\<close>.
\<close>

type_synonym 'v js_map = "(string \<times> 'v) list"

definition Map_get :: "'v js_map \<Rightarrow> string \<Rightarrow> 'v option" where
  "Map_get m k = map_of m k"

definition Map_set :: "'v js_map \<Rightarrow> string \<Rightarrow> 'v \<Rightarrow> 'v js_map" where
  "Map_set m k v = AList.update k v m"

definition ds_id :: "row \<Rightarrow> string" where
  \<comment> \<open>\<^verbatim>\<open>(row['DataSourceId'] ?? '').trim()\<close>\<close>
  "ds_id r = trim (or_empty (row_get r ''DataSourceId''))"

definition ds_name :: "row \<Rightarrow> string" where
  \<comment> \<open>the name after the two lines that compute it\<close>
  "ds_name r =
     (let name = trim (or_empty (row_get r ''Name'')) in
      if ds_id r = ''0'' \<and> str_includes (toUpperCase name) ''USSPACE'' then ''USSTRATCOM''
      else name)"

fun idToName :: "row list \<Rightarrow> string js_map \<Rightarrow> string js_map" where
  \<comment> \<open>the loop over \<^verbatim>\<open>ds.rows\<close>\<close>
  "idToName [] m = m"
| "idToName (r # rs) m =
     (if ds_id r \<noteq> [] then idToName rs (Map_set m (ds_id r) (ds_name r))
      else idToName rs m)"

definition dsOut :: "string js_map \<Rightarrow> string" where
  "dsOut m = join [LF] ((''Code'' @ [TAB] @ ''Name'') # map (\<lambda>(i, name). i @ [TAB] @ name) m)"

subsection \<open>One record per NORAD number\<close>

definition priority :: "string list" where
  \<comment> \<open>USSTRATCOM(0), SeeSat-L(4), JSC(3), Planet(1), UCS(7)\<close>
  "priority = [''0'', ''4'', ''3'', ''1'', ''7'']"

fun indexOf :: "string list \<Rightarrow> string \<Rightarrow> int" where
  \<comment> \<open>\<^verbatim>\<open>Array.prototype.indexOf\<close>\<close>
  "indexOf [] x = - 1"
| "indexOf (y # ys) x =
     (if y = x then 0 else (let i = indexOf ys x in if i = - 1 then - 1 else i + 1))"

definition hasValidElems :: "row \<Rightarrow> bool" where
  "hasValidElems r =
     (let sma = Number_of_field (row_get r ''SMA'');
          inc = Number_of_field (row_get r ''Inc'');
          ecc = Number_of_field (row_get r ''Ecc'');
          raan = Number_of_field (row_get r ''RAAN'');
          argp = Number_of_field (row_get r ''ArgP'');
          manom = Number_of_field (row_get r ''MeanAnom'')
      in isFinite sma \<and> js_greater sma (Fin 0) \<and>
         list_all isFinite [inc, ecc, raan, argp, manom] \<and>
         0 < length (trim (or_empty (row_get r ''Epoch''))))"

text \<open>
  \<^verbatim>\<open>Date.parse\<close> reads more than the ISO formats, in a way each engine chooses,
  and reads a time without zone in the zone of the machine. It is a parameter of the
  model: any function from texts to Numbers.
\<close>

definition epochToDate :: "(string \<Rightarrow> jsnum) \<Rightarrow> row \<Rightarrow> jsnum" where
  "epochToDate Date_parse r =
     (let e = trim (or_empty (row_get r ''Epoch''));
          d = Date_parse e
      in if isFinite d then d else NInf)"

definition source_index :: "row \<Rightarrow> int" where
  \<comment> \<open>\<^verbatim>\<open>priority.indexOf(String(a['DataSourceId']).trim())\<close>\<close>
  "source_index r = indexOf priority (trim (String_of (row_get r ''DataSourceId'')))"

definition better :: "(string \<Rightarrow> jsnum) \<Rightarrow> row \<Rightarrow> row option \<Rightarrow> bool" where
  \<comment> \<open>the second argument is \<^verbatim>\<open>undefined\<close> or a row\<close>
  "better Date_parse a b =
     (case b of
        None \<Rightarrow> True
      | Some b' \<Rightarrow>
          (let pa = source_index a; pb = source_index b' in
           if pa \<noteq> pb
           then (if pa \<noteq> - 1 then pa else 999) < (if pb \<noteq> - 1 then pb else 999)
           else js_greater (epochToDate Date_parse a) (epochToDate Date_parse b')))"

definition norad_of :: "row \<Rightarrow> string" where
  \<comment> \<open>\<^verbatim>\<open>String(row['NoradId'] ?? '').trim()\<close>\<close>
  "norad_of r = trim (or_empty (row_get r ''NoradId''))"

fun bestByNorad :: "(string \<Rightarrow> jsnum) \<Rightarrow> row list \<Rightarrow> row js_map \<Rightarrow> row js_map" where
  \<comment> \<open>the loop over \<^verbatim>\<open>rso.rows\<close>\<close>
  "bestByNorad Date_parse [] best = best"
| "bestByNorad Date_parse (r # rs) best =
     (if \<not> hasValidElems r then bestByNorad Date_parse rs best
      else let norad = norad_of r in
        if norad = [] then bestByNorad Date_parse rs best
        else if better Date_parse r (Map_get best norad)
             then bestByNorad Date_parse rs (Map_set best norad r)
             else bestByNorad Date_parse rs best)"

subsection \<open>The object table\<close>

definition headerOut :: "string list" where
  "headerOut =
     [''DataSource'', ''Name'', ''Country'', ''CatalogId'', ''NoradId'', ''BirthDate'',
      ''Operator'', ''Users'', ''Purpose'', ''DetailedPurpose'', ''LaunchMass'', ''DryMass'',
      ''Power'', ''Lifetime'', ''Contractor'', ''LaunchSite'', ''LaunchVehicle'', ''OrbitType'',
      ''Epoch'', ''SMA'', ''Ecc'', ''Inc'', ''RAAN'', ''ArgP'', ''MeanAnom'']"

definition nodeb_cols :: "row \<Rightarrow> string list" where
  \<comment> \<open>the array \<^verbatim>\<open>cols\<close> of one winning row\<close>
  "nodeb_cols r =
     [trim (or_empty (row_get r ''DataSourceId'')),
      or_empty (row_get r ''Name''),
      or_empty (row_get r ''Country''),
      or_empty (row_get r ''CatalogId''),
      or_empty (row_get r ''NoradId''),
      or_empty (row_get r ''BirthDate''),
      or_empty (row_get r ''Operator''),
      or_empty (row_get r ''Users''),
      or_empty (row_get r ''Purpose''),
      or_empty (row_get r ''DetailedPurpose''),
      or_empty (row_get r ''LaunchMass''),
      or_empty (row_get r ''DryMass''),
      or_empty (row_get r ''Power''),
      or_empty (row_get r ''Lifetime''),
      or_empty (row_get r ''Contractor''),
      or_empty (row_get r ''LaunchSite''),
      or_empty (row_get r ''LaunchVehicle''),
      mapOrbitType (or_empty (row_get r ''OrbitType'')),
      or_empty (row_get r ''Epoch''),
      or_empty (row_get r ''SMA''),
      or_empty (row_get r ''Ecc''),
      or_empty (row_get r ''Inc''),
      or_empty (row_get r ''RAAN''),
      or_empty (row_get r ''ArgP''),
      or_empty (row_get r ''MeanAnom'')]"

definition outRows :: "row js_map \<Rightarrow> string list" where
  \<comment> \<open>the loop over \<^verbatim>\<open>bestByNorad.values()\<close>\<close>
  "outRows best = map (\<lambda>(k, r). join [TAB] (nodeb_cols r)) best"

definition nodebOut :: "row js_map \<Rightarrow> string" where
  "nodebOut best = join [LF] (join [TAB] headerOut # outRows best)"

subsection \<open>\<^verbatim>\<open>main\<close>\<close>

text \<open>
  The script reads one file and writes two. The file system is a map from paths to
  contents; creating the output directory and writing a file are taken to succeed.
  An exception ends the run: \<^verbatim>\<open>main().catch\<close> prints it and exits with status 1,
  and every exception the code can raise comes before the first write.
\<close>

datatype path = SRC_FILE | www_data_sources | www_query_NODEB | Other_file string

type_synonym files = "path \<Rightarrow> string option"

record tables =
  descriptors :: "string js_map"
  objects :: "row js_map"

definition convert :: "(string \<Rightarrow> jsnum) \<Rightarrow> string \<Rightarrow> js_error + tables" where
  \<comment> \<open>\<^verbatim>\<open>main\<close> between reading the source text and formatting the two tables\<close>
  "convert Date_parse js =
     (case extractBacktick ''dataSources'' js of Inl e \<Rightarrow> Inl e | Inr dataSourcesTsv \<Rightarrow>
      case extractBacktick ''intactRso'' js of Inl e \<Rightarrow> Inl e | Inr intactRsoTsv \<Rightarrow>
      case parseTSV dataSourcesTsv of Inl e \<Rightarrow> Inl e | Inr (ds_header, ds_rows) \<Rightarrow>
      case parseTSV intactRsoTsv of Inl e \<Rightarrow> Inl e | Inr (rso_header, rso_rows) \<Rightarrow>
        Inr \<lparr>descriptors = idToName ds_rows [],
             objects = bestByNorad Date_parse rso_rows []\<rparr>)"

definition main :: "(string \<Rightarrow> jsnum) \<Rightarrow> files \<Rightarrow> js_error + files" where
  "main Date_parse fs =
     (case fs SRC_FILE of
        None \<Rightarrow> Inl (Error ''ENOENT'')
      | Some js \<Rightarrow>
          (case convert Date_parse js of
             Inl e \<Rightarrow> Inl e
           | Inr t \<Rightarrow>
               Inr (fs(www_data_sources \<mapsto> dsOut (descriptors t),
                       www_query_NODEB \<mapsto> nodebOut (objects t)))))"

section \<open>Notions the properties are stated with\<close>

definition source_id :: "row \<Rightarrow> string" where
  \<comment> \<open>the source of a record, as \<^const>\<open>better\<close> reads it\<close>
  "source_id r = trim (String_of (row_get r ''DataSourceId''))"

definition epoch_text :: "row \<Rightarrow> string" where
  \<comment> \<open>the text \<^const>\<open>epochToDate\<close> hands to \<^verbatim>\<open>Date.parse\<close>\<close>
  "epoch_text r = trim (or_empty (row_get r ''Epoch''))"

definition precedes :: "string list \<Rightarrow> string \<Rightarrow> string \<Rightarrow> bool" where
  \<comment> \<open>\<open>s\<close> appears earlier in the list than \<open>t\<close>: \<open>s\<close> is listed, and \<open>t\<close> is
      another source that is not listed before the first \<open>s\<close> (so \<open>t\<close> comes later or
      is not listed at all)\<close>
  "precedes prio s t =
     (s \<in> set prio \<and> t \<noteq> s \<and> t \<notin> set (takeWhile (\<lambda>x. x \<noteq> s) prio))"

definition same_priority :: "row \<Rightarrow> row \<Rightarrow> bool" where
  \<comment> \<open>neither source comes before the other: the same source, or both unlisted\<close>
  "same_priority a b =
     (\<not> precedes priority (source_id a) (source_id b) \<and>
      \<not> precedes priority (source_id b) (source_id a))"

definition parses_later :: "(string \<Rightarrow> jsnum) \<Rightarrow> row \<Rightarrow> row \<Rightarrow> bool" where
  \<comment> \<open>the epoch of \<open>a\<close> parses, and that of \<open>b\<close> parses to an earlier instant or does
      not parse\<close>
  "parses_later Date_parse a b =
     (isFinite (Date_parse (epoch_text a)) \<and>
      (js_less (Date_parse (epoch_text b)) (Date_parse (epoch_text a)) \<or>
       \<not> isFinite (Date_parse (epoch_text b))))"

definition outranks :: "(string \<Rightarrow> jsnum) \<Rightarrow> row \<Rightarrow> row \<Rightarrow> bool" where
  \<comment> \<open>\<open>a\<close> comes before \<open>r\<close> by the first two rules: its source is earlier in the
      priority list, or the priority is the same and its epoch parses later\<close>
  "outranks Date_parse a r =
     (precedes priority (source_id a) (source_id r) \<or>
      (same_priority a r \<and> parses_later Date_parse a r))"

definition source_rank :: "row \<Rightarrow> int" where
  \<comment> \<open>the number \<^const>\<open>better\<close> compares: the index, and 999 for an unlisted source\<close>
  "source_rank r = (if source_index r \<noteq> - 1 then source_index r else 999)"

fun champion :: "(string \<Rightarrow> jsnum) \<Rightarrow> row list \<Rightarrow> row option \<Rightarrow> row option" where
  \<comment> \<open>what the loop does to the entry of one key, over the rows of that key\<close>
  "champion Date_parse [] cur = cur"
| "champion Date_parse (r # rs) cur =
     champion Date_parse rs (if better Date_parse r cur then Some r else cur)"

definition candidates :: "string \<Rightarrow> row list \<Rightarrow> row list" where
  \<comment> \<open>the rows that compete for the key \<open>k\<close>, in input order\<close>
  "candidates k rows = filter (\<lambda>r. hasValidElems r \<and> norad_of r = k) rows"

section \<open>Data for the examples\<close>

text \<open>
  One instance of the parameter \<^verbatim>\<open>Date.parse\<close>: the date-only form
  \<^verbatim>\<open>YYYY-MM-DD\<close> of the ISO format, which every engine reads as midnight UTC of that
  day, in milliseconds since 1970-01-01; any other text is \<^verbatim>\<open>NaN\<close> here.
\<close>

definition days_from_civil :: "int \<Rightarrow> int \<Rightarrow> int \<Rightarrow> int" where
  \<comment> \<open>days from 1970-01-01 to the day \<open>d\<close> of month \<open>m\<close> of year \<open>y\<close> (Gregorian)\<close>
  "days_from_civil y m d =
     (let y' = (if m \<le> 2 then y - 1 else y);
          era = y' div 400;
          yoe = y' - era * 400;
          doy = (153 * (if 2 < m then m - 3 else m + 9) + 2) div 5 + d - 1;
          doe = yoe * 365 + yoe div 4 - yoe div 100 + doy
      in era * 146097 + doe - 719468)"

definition days_in_month :: "int \<Rightarrow> int \<Rightarrow> int" where
  "days_in_month y m =
     (if m = 2 then (if y mod 4 = 0 \<and> (y mod 100 \<noteq> 0 \<or> y mod 400 = 0) then 29 else 28)
      else if m \<in> set [4, 6, 9, 11] then 30 else 31)"

definition iso_date_parse :: "string \<Rightarrow> jsnum" where
  "iso_date_parse s =
     (if length s = 10 \<and> s ! 4 = CHR ''-'' \<and> s ! 7 = CHR ''-'' \<and>
         list_all is_digit (take 4 s @ take 2 (drop 5 s) @ drop 8 s)
      then let y = digits_value 10 (take 4 s);
               m = digits_value 10 (take 2 (drop 5 s));
               d = digits_value 10 (drop 8 s)
           in if 1 \<le> m \<and> m \<le> 12 \<and> 1 \<le> d \<and> d \<le> days_in_month y m
              then Fin (of_int (days_from_civil y m d * 86400000)) else NaN
      else NaN)"

definition rso_row :: "string \<Rightarrow> string \<Rightarrow> string \<Rightarrow> string \<Rightarrow> row" where
  \<comment> \<open>a parsed row of the table \<^verbatim>\<open>intactRso\<close>: source, NORAD number, epoch, semi-major
      axis; the other elements fixed\<close>
  "rso_row src norad epoch sma =
     [(''DataSourceId'', src), (''Name'', ''ISS (ZARYA)''), (''NoradId'', norad),
      (''OrbitType'', ''L''), (''Epoch'', epoch), (''SMA'', sma), (''Ecc'', ''0.0005''),
      (''Inc'', ''0.9013''), (''RAAN'', ''1.5''), (''ArgP'', ''2.25''), (''MeanAnom'', ''3'')]"

definition spec_isValid :: "row \<Rightarrow> bool" where
  \<comment> \<open>validity as the specification words it: the semi-major axis a finite number
      above 0, the five other elements finite numbers, the epoch a non-empty string\<close>
  "spec_isValid r =
     (isFinite (Number_of_field (row_get r ''SMA'')) \<and>
      js_greater (Number_of_field (row_get r ''SMA'')) (Fin 0) \<and>
      isFinite (Number_of_field (row_get r ''Ecc'')) \<and>
      isFinite (Number_of_field (row_get r ''Inc'')) \<and>
      isFinite (Number_of_field (row_get r ''RAAN'')) \<and>
      isFinite (Number_of_field (row_get r ''ArgP'')) \<and>
      isFinite (Number_of_field (row_get r ''MeanAnom'')) \<and>
      (case row_get r ''Epoch'' of None \<Rightarrow> False | Some e \<Rightarrow> e \<noteq> []))"

fun first_seen :: "string list \<Rightarrow> string list" where
  \<comment> \<open>the distinct elements of a list, each at the place of its first occurrence\<close>
  "first_seen [] = []"
| "first_seen (x # xs) = x # filter (\<lambda>y. y \<noteq> x) (first_seen xs)"

definition ds_row :: "string \<Rightarrow> string \<Rightarrow> row" where
  \<comment> \<open>a parsed row of the table \<^verbatim>\<open>dataSources\<close>\<close>
  "ds_row i name = [(''DataSourceId'', i), (''Name'', name)]"

definition example_dataSources :: string where
  "example_dataSources =
     join [LF] [join [TAB] [''DataSourceId'', ''Name''], join [TAB] [''0'', ''USSPACECOM'']]"

definition example_intactRso :: string where
  \<comment> \<open>three records of one object from the sources 0, 4 and 0, a short line, and an
      object that only a source without descriptor reports\<close>
  "example_intactRso =
     join [LF]
       [join [TAB] [''DataSourceId'', ''Name'', ''NoradId'', ''OrbitType'', ''Epoch'', ''SMA'',
          ''Ecc'', ''Inc'', ''RAAN'', ''ArgP'', ''MeanAnom''],
        join [TAB] [''0'', ''ISS (ZARYA)'', ''25544'', ''L'', ''2024-01-01'', ''6790000'',
          ''0.0005'', ''0.9013'', ''1.5'', ''2.25'', ''3''],
        join [TAB] [''4'', ''ISS (ZARYA)'', ''25544'', ''L'', ''2024-06-01'', ''6790000'',
          ''0.0005'', ''0.9013'', ''1.5'', ''2.25'', ''3''],
        join [TAB] [''0'', ''ISS (ZARYA)'', ''25544''],
        join [TAB] [''0'', ''ISS (ZARYA)'', ''25544'', ''L'', ''2024-06-01'', ''6790000'',
          ''0.0005'', ''0.9013'', ''1.5'', ''2.25'', ''3''],
        join [TAB] [''9'', ''ISS (ZARYA)'', ''20580'', ''L'', ''2024-01-01'', ''6790000'',
          ''0.0005'', ''0.9013'', ''1.5'', ''2.25'', ''3'']]"

definition example_js :: string where
  \<comment> \<open>a file \<^verbatim>\<open>scripts/intactData.js\<close>\<close>
  "example_js =
     ''var dataSources = '' @ [BACKTICK] @ example_dataSources @ [BACKTICK] @ [LF] @
     ''var intactRso = '' @ [BACKTICK] @ example_intactRso @ [BACKTICK] @ [LF]"

definition spec_descriptor_consistent :: "tables \<Rightarrow> bool" where
  \<comment> \<open>descriptor consistency as the specification words it: the DataSource value of
      every row of the object table is a Code of the descriptor table\<close>
  "spec_descriptor_consistent t =
     list_all (\<lambda>(k, r). hd (nodeb_cols r) \<in> set (map fst (descriptors t))) (objects t)"

definition example_tables :: tables where
  \<comment> \<open>what \<^const>\<open>convert\<close> makes of \<^const>\<open>example_js\<close>\<close>
  "example_tables =
     \<lparr>descriptors = [(''0'', ''USSTRATCOM'')],
      objects = [(''25544'', rso_row ''0'' ''25544'' ''2024-06-01'' ''6790000''),
                 (''20580'', rso_row ''9'' ''20580'' ''2024-01-01'' ''6790000'')]\<rparr>"

section \<open>The fetch script \<^verbatim>\<open>fetch_celestrak.mjs\<close>\<close>

subsection \<open>Values and arithmetic\<close>

text \<open>
  A field of a GP object that \<^verbatim>\<open>JSON.parse\<close> returned is a scalar here:
  absent (\<^verbatim>\<open>undefined\<close>), \<^verbatim>\<open>null\<close>, a boolean, a Number or a string.
\<close>

datatype jsval = Undefined | Null | Bool bool | Num jsnum | Str string

definition ToNumber :: "jsval \<Rightarrow> jsnum" where
  \<comment> \<open>\<^verbatim>\<open>Number(x)\<close>\<close>
  "ToNumber x =
     (case x of
        Undefined \<Rightarrow> NaN
      | Null \<Rightarrow> Fin 0
      | Bool b \<Rightarrow> Fin (if b then 1 else 0)
      | Num n \<Rightarrow> n
      | Str s \<Rightarrow> StringToNumber s)"

definition truthy :: "jsval \<Rightarrow> bool" where
  "truthy x =
     (case x of
        Undefined \<Rightarrow> False
      | Null \<Rightarrow> False
      | Bool b \<Rightarrow> b
      | Num n \<Rightarrow> n \<noteq> NaN \<and> n \<noteq> Fin 0
      | Str s \<Rightarrow> s \<noteq> [])"

definition js_or :: "jsval \<Rightarrow> jsval \<Rightarrow> jsval" where
  \<comment> \<open>\<^verbatim>\<open>a || b\<close>\<close>
  "js_or a b = (if truthy a then a else b)"

fun js_mul :: "jsnum \<Rightarrow> jsnum \<Rightarrow> jsnum" where
  \<comment> \<open>\<^verbatim>\<open>a * b\<close>: the exact product, rounded\<close>
  "js_mul (Fin x) (Fin y) = number_value (x * y)"
| "js_mul NaN _ = NaN"
| "js_mul _ NaN = NaN"
| "js_mul (Fin x) PInf = (if x = 0 then NaN else if 0 < x then PInf else NInf)"
| "js_mul (Fin x) NInf = (if x = 0 then NaN else if 0 < x then NInf else PInf)"
| "js_mul PInf (Fin y) = (if y = 0 then NaN else if 0 < y then PInf else NInf)"
| "js_mul NInf (Fin y) = (if y = 0 then NaN else if 0 < y then NInf else PInf)"
| "js_mul PInf PInf = PInf"
| "js_mul PInf NInf = NInf"
| "js_mul NInf PInf = NInf"
| "js_mul NInf NInf = PInf"

fun js_div :: "jsnum \<Rightarrow> jsnum \<Rightarrow> jsnum" where
  \<comment> \<open>\<^verbatim>\<open>a / b\<close>: the exact quotient, rounded; a zero divisor is \<^verbatim>\<open>+0\<close>, the only
      zero the scripts divide by (an underflowed square)\<close>
  "js_div (Fin x) (Fin y) =
     (if y = 0 then (if x = 0 then NaN else if 0 < x then PInf else NInf)
      else number_value (x / y))"
| "js_div NaN _ = NaN"
| "js_div _ NaN = NaN"
| "js_div (Fin x) PInf = Fin 0"
| "js_div (Fin x) NInf = Fin 0"
| "js_div PInf (Fin y) = (if 0 \<le> y then PInf else NInf)"
| "js_div NInf (Fin y) = (if 0 \<le> y then NInf else PInf)"
| "js_div PInf PInf = NaN"
| "js_div PInf NInf = NaN"
| "js_div NInf PInf = NaN"
| "js_div NInf NInf = NaN"

definition Math_PI :: jsnum where
  \<comment> \<open>the double nearest to \<open>\<pi>\<close>, \<^verbatim>\<open>3.141592653589793\<close>\<close>
  "Math_PI = Fin (884279719003555 / 281474976710656)"

definition MU_EARTH :: jsnum where
  \<comment> \<open>\<^verbatim>\<open>3.986004418e14\<close>, in m^3/s^2\<close>
  "MU_EARTH = Fin 398600441800000"

subsection \<open>\<^verbatim>\<open>Number.prototype.toString\<close>\<close>

text \<open>
  ECMA-262, Number::toString in radix 10. For a positive \<open>v\<close> it takes the integers
  \<open>k \<ge> 1\<close>, \<open>s\<close> and \<open>n\<close> with \<open>10 ^ (k - 1) \<le> s < 10 ^ k\<close> whose value
  \<open>s * 10 powi (n - k)\<close> rounds to \<open>v\<close>, with \<open>k\<close> as small as possible and the value as
  close to \<open>v\<close> as possible; the notation then depends on \<open>n\<close> alone.

  With \<open>n0\<close> the decimal exponent of \<open>v\<close> (\<open>10 powi (n0 - 1) \<le> v < 10 powi n0\<close>), the two
  \<open>k\<close>-digit decimals next to \<open>v\<close> are \<open>lo * 10 powi (n0 - k)\<close> and
  \<open>(lo + 1) * 10 powi (n0 - k)\<close> for \<open>lo\<close> the floor of \<open>v / 10 powi (n0 - k)\<close>; the closest
  \<open>k\<close>-digit decimal that rounds to \<open>v\<close>, if there is one, is one of the two.
\<close>

function ndigits :: "int \<Rightarrow> nat" where
  \<comment> \<open>the number of decimal digits\<close>
  "ndigits x = (if x < 10 then 1 else Suc (ndigits (x div 10)))"
  by pat_completeness auto
termination
  by (relation "measure nat") auto

definition dec_exponent :: "rat \<Rightarrow> int" where
  \<comment> \<open>for \<open>0 < v\<close>, the \<open>n0\<close> with \<open>10 powi (n0 - 1) \<le> v < 10 powi n0\<close>\<close>
  "dec_exponent v =
     (let (p, q) = quotient_of v; d = int (ndigits p) - int (ndigits q)
      in if 10 powi d \<le> v then d + 1 else d)"

definition digits_at :: "rat \<Rightarrow> int \<Rightarrow> nat \<Rightarrow> (int \<times> int) option" where
  \<comment> \<open>the closest \<open>k\<close>-digit decimal that rounds to \<open>v\<close>, as \<open>(s, n)\<close>; an even \<open>s\<close> on
      a tie\<close>
  "digits_at v n0 k =
     (let scale = 10 powi (n0 - int k);
          lo = \<lfloor>v / scale\<rfloor>;
          hi = lo + 1;
          lo_ok = (number_value (of_int lo * scale) = Fin v);
          hi_ok = (number_value (of_int hi * scale) = Fin v);
          dl = v - of_int lo * scale;
          dh = of_int hi * scale - v;
          s_hi = (if hi = 10 ^ k then 10 ^ (k - 1) else hi)
      in if hi_ok \<and> (\<not> lo_ok \<or> dh < dl \<or> (dh = dl \<and> even s_hi))
         then Some (s_hi, if hi = 10 ^ k then n0 + 1 else n0)
         else if lo_ok then Some (lo, n0) else None)"

fun first_digits :: "rat \<Rightarrow> int \<Rightarrow> nat list \<Rightarrow> (nat \<times> int \<times> int) option" where
  "first_digits v n0 [] = None"
| "first_digits v n0 (k # ks) =
     (case digits_at v n0 k of
        Some (s, n) \<Rightarrow> Some (k, s, n)
      | None \<Rightarrow> first_digits v n0 ks)"

definition shortest_digits :: "rat \<Rightarrow> nat \<times> int \<times> int" where
  \<comment> \<open>\<open>(k, s, n)\<close>; 17 digits always suffice for a double, the last case is for a
      rational that is none\<close>
  "shortest_digits v =
     (let n0 = dec_exponent v in
      case first_digits v n0 [1..<18] of
        Some r \<Rightarrow> r
      | None \<Rightarrow> (17, \<lfloor>v / 10 powi (n0 - 17)\<rfloor>, n0))"

definition digit_char :: "int \<Rightarrow> char" where
  "digit_char d = ''0123456789'' ! nat (d mod 10)"

definition dec_digits :: "nat \<Rightarrow> int \<Rightarrow> string" where
  \<comment> \<open>the last \<open>k\<close> decimal digits of \<open>s\<close>, the most significant first\<close>
  "dec_digits k s = map (\<lambda>i. digit_char (s div 10 ^ (k - 1 - i))) [0..<k]"

definition dec_string :: "int \<Rightarrow> string" where
  \<comment> \<open>a natural number in decimal\<close>
  "dec_string x = dec_digits (ndigits x) x"

definition pos_toString :: "rat \<Rightarrow> string" where
  \<comment> \<open>steps 5 to 10 of Number::toString, for \<open>0 < v\<close>\<close>
  "pos_toString v =
     (let (k, s, n) = shortest_digits v; ds = dec_digits k s in
      if int k \<le> n \<and> n \<le> 21 then ds @ replicate (nat (n - int k)) (CHR ''0'')
      else if 0 < n \<and> n \<le> 21 then take (nat n) ds @ ''.'' @ drop (nat n) ds
      else if - 6 < n \<and> n \<le> 0 then ''0.'' @ replicate (nat (- n)) (CHR ''0'') @ ds
      else let e = n - 1;
               sign = (if e < 0 then ''-'' else ''+'');
               es = dec_string \<bar>e\<bar>
           in if k = 1 then ds @ ''e'' @ sign @ es
              else take 1 ds @ ''.'' @ drop 1 ds @ ''e'' @ sign @ es)"

definition Number_toString :: "jsnum \<Rightarrow> string" where
  \<comment> \<open>\<^verbatim>\<open>String(v)\<close> for a Number\<close>
  "Number_toString x =
     (case x of
        NaN \<Rightarrow> ''NaN''
      | PInf \<Rightarrow> ''Infinity''
      | NInf \<Rightarrow> ''-Infinity''
      | Fin v \<Rightarrow>
          if v = 0 then ''0''
          else if v < 0 then ''-'' @ pos_toString (- v)
          else pos_toString v)"

definition ToString :: "jsval \<Rightarrow> string" where
  \<comment> \<open>\<^verbatim>\<open>x.toString()\<close> of a value that is not nullish, and what \<^verbatim>\<open>join\<close> makes of
      an element (the empty string for a nullish one)\<close>
  "ToString x =
     (case x of
        Undefined \<Rightarrow> ''''
      | Null \<Rightarrow> ''''
      | Bool b \<Rightarrow> (if b then ''true'' else ''false'')
      | Num n \<Rightarrow> Number_toString n
      | Str s \<Rightarrow> s)"

subsection \<open>The conversions and \<^verbatim>\<open>rowFromCelestrak\<close>\<close>

definition deg2rad :: "jsval \<Rightarrow> jsnum" where
  \<comment> \<open>\<^verbatim>\<open>(Number(d) || 0) * Math.PI / 180\<close>\<close>
  "deg2rad d =
     (let n = ToNumber d;
          n' = (if truthy (Num n) then n else Fin 0)
      in js_div (js_mul n' Math_PI) (Fin 180))"

definition toISO :: "jsval \<Rightarrow> string" where
  \<comment> \<open>\<^verbatim>\<open>(x || '').toString()\<close>\<close>
  "toISO x = ToString (js_or x (Str []))"

definition toNum :: "jsval \<Rightarrow> jsval" where
  \<comment> \<open>\<^verbatim>\<open>const n = Number(x); return Number.isFinite(n) ? n : ''\<close>\<close>
  "toNum x = (let n = ToNumber x in if isFinite n then Num n else Str [])"

text \<open>
  ECMA-262 leaves the precision of \<^verbatim>\<open>Math.cbrt\<close> to the engine; it is a parameter of
  the model.
\<close>

definition smaFromMeanMotionRevPerDay :: "(jsnum \<Rightarrow> jsnum) \<Rightarrow> jsval \<Rightarrow> jsval" where
  "smaFromMeanMotionRevPerDay Math_cbrt nRevPerDay =
     (let n = ToNumber nRevPerDay in
      if \<not> isFinite n \<or> js_le n (Fin 0) then Str []
      else let nRadPerSec = js_div (js_mul (js_mul n (Fin 2)) Math_PI) (Fin 86400)
           in Num (Math_cbrt (js_div MU_EARTH (js_mul nRadPerSec nRadPerSec))))"

record gp =
  OBJECT_NAME :: jsval
  OBJECT_ID :: jsval
  EPOCH :: jsval
  MEAN_MOTION :: jsval
  ECCENTRICITY :: jsval
  INCLINATION :: jsval
  RA_OF_ASC_NODE :: jsval
  ARG_OF_PERICENTER :: jsval
  MEAN_ANOMALY :: jsval
  NORAD_CAT_ID :: jsval

definition celestrak_cols :: "(jsnum \<Rightarrow> jsnum) \<Rightarrow> gp \<Rightarrow> jsval list" where
  \<comment> \<open>the array \<^verbatim>\<open>cols\<close> of \<^verbatim>\<open>rowFromCelestrak\<close>\<close>
  "celestrak_cols Math_cbrt obj =
     (let name = js_or (OBJECT_NAME obj) (Str []);
          catalogId = js_or (OBJECT_ID obj) (Str []);
          noradId = js_or (NORAD_CAT_ID obj) (Str []);
          epoch = Str (toISO (EPOCH obj));
          sma = smaFromMeanMotionRevPerDay Math_cbrt (MEAN_MOTION obj);
          ecc = toNum (ECCENTRICITY obj);
          inc = Num (deg2rad (INCLINATION obj));
          raan = Num (deg2rad (RA_OF_ASC_NODE obj));
          argp = Num (deg2rad (ARG_OF_PERICENTER obj));
          meanAnom = Num (deg2rad (MEAN_ANOMALY obj))
      in [Str ''USSTRATCOM'', name, Str [], catalogId, noradId,
          Str [], Str [], Str [], Str [], Str [],
          Str [], Str [], Str [], Str [], Str [],
          Str [], Str [],
          Str [],
          epoch, sma, ecc, inc, raan, argp, meanAnom])"

definition cell :: "jsval \<Rightarrow> jsval" where
  \<comment> \<open>\<^verbatim>\<open>v => (typeof v === 'number' && Number.isFinite(v)) ? String(v) : (v ?? '')\<close>\<close>
  "cell v =
     (case v of
        Num n \<Rightarrow> if isFinite n then Str (Number_toString n) else v
      | Undefined \<Rightarrow> Str []
      | Null \<Rightarrow> Str []
      | _ \<Rightarrow> v)"

definition rowFromCelestrak :: "(jsnum \<Rightarrow> jsnum) \<Rightarrow> gp \<Rightarrow> string" where
  "rowFromCelestrak Math_cbrt obj =
     join [TAB] (map (\<lambda>v. ToString (cell v)) (celestrak_cols Math_cbrt obj))"

definition plain_decimal :: "string \<Rightarrow> bool" where
  \<comment> \<open>a plain decimal: an optional minus sign, digits, and optionally a point with
      digits after it\<close>
  "plain_decimal s =
     (let u = (case s of c # r \<Rightarrow> if c = CHR ''-'' then r else s | [] \<Rightarrow> s);
          ip = takeWhile is_digit u;
          r1 = dropWhile is_digit u
      in ip \<noteq> [] \<and>
         (r1 = [] \<or> (hd r1 = CHR ''.'' \<and> tl r1 \<noteq> [] \<and> list_all is_digit (tl r1))))"

definition example_gp :: gp where
  \<comment> \<open>a GP object with an eccentricity of \<^verbatim>\<open>1e-7\<close> and no mean motion\<close>
  "example_gp =
     \<lparr>OBJECT_NAME = Str ''INTELSAT 901'', OBJECT_ID = Str ''2001-024A'',
      EPOCH = Str ''2024-06-01T00:00:00.000000'', MEAN_MOTION = Undefined,
      ECCENTRICITY = Num (number_value (1 / 10 ^ 7)), INCLINATION = Num (Fin 0),
      RA_OF_ASC_NODE = Num (Fin 0), ARG_OF_PERICENTER = Num (Fin 0),
      MEAN_ANOMALY = Num (Fin 0), NORAD_CAT_ID = Num (Fin 26824)\<rparr>"

fun icbrt_bits :: "nat \<Rightarrow> int \<Rightarrow> int \<Rightarrow> int" where
  \<comment> \<open>adds to \<open>r\<close> the bits below \<open>2 ^ i\<close>, from the highest, keeping \<open>r ^ 3 \<le> x\<close>\<close>
  "icbrt_bits 0 x r = r"
| "icbrt_bits (Suc i) x r =
     icbrt_bits i x (if (r + 2 ^ i) * (r + 2 ^ i) * (r + 2 ^ i) \<le> x then r + 2 ^ i else r)"

definition icbrt :: "int \<Rightarrow> int" where
  \<comment> \<open>the greatest \<open>r < 2 ^ 41\<close> with \<open>r ^ 3 \<le> x\<close>\<close>
  "icbrt x = icbrt_bits 41 x 0"

definition example_cbrt :: "jsnum \<Rightarrow> jsnum" where
  \<comment> \<open>one instance of the parameter \<^verbatim>\<open>Math.cbrt\<close>: the cube root cut to an integer,
      for an argument below \<open>2 ^ 123\<close>\<close>
  "example_cbrt a =
     (case a of
        Fin x \<Rightarrow> if 0 \<le> x then Fin (of_int (icbrt \<lfloor>x\<rfloor>)) else Fin (- of_int (icbrt \<lfloor>- x\<rfloor>))
      | _ \<Rightarrow> a)"

chapter \<open>Properties\<close>

section \<open>The loader skips short rows\<close>

lemma parse_rows_filter:
  "parse_rows header ls rows =
     rows @ map (mk_rec header)
       (filter (\<lambda>cols. \<not> length cols < length header) (map split_tab ls))"
  by (induction ls arbitrary: rows) (simp_all add: Let_def)

text \<open>
  Claim C7. For a text with a header line, \<^const>\<open>parseTSV\<close> returns the header's
  tokens and exactly one record per data line that has at least as many tokens as the
  header, in the order of the lines; a shorter line is left out and changes nothing
  else: every record is built from its own line and the header alone.
\<close>

theorem parseTSV_skips_short_rows:
  assumes "tsv_lines tsv = l0 # ls"
  shows "parseTSV tsv =
     Inr (split_tab l0,
          map (mk_rec (split_tab l0))
            (filter (\<lambda>cols. length (split_tab l0) \<le> length cols) (map split_tab ls)))"
proof -
  have "(\<lambda>cols::string list. \<not> length cols < length (split_tab l0)) =
        (\<lambda>cols. length (split_tab l0) \<le> length cols)"
    by (simp add: not_less)
  then show ?thesis
    using assms by (simp add: parseTSV_def Let_def parse_rows_filter)
qed

theorem parseTSV_skips_short_rows_witness:
  "tsv_lines (join [LF] [join [TAB] [''A'', ''B''], join [TAB] [''1'', ''2''], ''x'', [],
       join [TAB] [''3'', ''4'', ''5'']]) =
     [join [TAB] [''A'', ''B''], join [TAB] [''1'', ''2''], ''x'', join [TAB] [''3'', ''4'', ''5'']] \<and>
   parseTSV (join [LF] [join [TAB] [''A'', ''B''], join [TAB] [''1'', ''2''], ''x'', [],
       join [TAB] [''3'', ''4'', ''5'']]) =
     Inr ([''A'', ''B''], [[(''A'', ''1''), (''B'', ''2'')], [(''A'', ''3''), (''B'', ''4'')]])"
proof -
  have l: "tsv_lines (join [LF] [join [TAB] [''A'', ''B''], join [TAB] [''1'', ''2''], ''x'', [],
       join [TAB] [''3'', ''4'', ''5'']]) =
     join [TAB] [''A'', ''B''] #
       [join [TAB] [''1'', ''2''], ''x'', join [TAB] [''3'', ''4'', ''5'']]"
    by (simp add: tsv_lines_def TAB_def LF_def CR_def)
  show ?thesis
    using l parseTSV_skips_short_rows [OF l]
    by (simp add: split_tab_def TAB_def mk_rec_def row_set_def)
qed

section \<open>Reconciliation: one champion per key\<close>

lemma Map_get_set: "Map_get (Map_set m k v) k' = (if k' = k then Some v else Map_get m k')"
  by (simp add: Map_get_def Map_set_def update_conv)

lemma bestByNorad_champion:
  "k \<noteq> [] \<Longrightarrow> Map_get (bestByNorad dp rows best) k =
     champion dp (candidates k rows) (Map_get best k)"
  unfolding candidates_def
proof (induction rows arbitrary: best)
  case Nil
  then show ?case by simp
next
  case (Cons r rows)
  then show ?case
    by (auto simp: Let_def Map_get_set)
qed

lemma Map_get_empty: "Map_get [] k = None"
  by (simp add: Map_get_def)

subsection \<open>The priority list and \<^const>\<open>indexOf\<close>\<close>

lemma indexOf_notin: "x \<notin> set xs \<Longrightarrow> indexOf xs x = - 1"
  by (induction xs) (auto simp: Let_def)

lemma indexOf_in: "x \<in> set xs \<Longrightarrow> indexOf xs x = int (length (takeWhile (\<lambda>y. y \<noteq> x) xs))"
  by (induction xs) (auto simp: Let_def)

lemma takeWhile_length_less:
  "x \<in> set xs \<Longrightarrow> length (takeWhile (\<lambda>y. y \<noteq> x) xs) < length xs"
  by (induction xs) auto

lemma first_before:
  "s \<in> set xs \<Longrightarrow> t \<in> set xs \<Longrightarrow> t \<noteq> s \<Longrightarrow> t \<notin> set (takeWhile (\<lambda>x. x \<noteq> s) xs) \<Longrightarrow>
   length (takeWhile (\<lambda>x. x \<noteq> s) xs) < length (takeWhile (\<lambda>x. x \<noteq> t) xs)"
  by (induction xs) (auto split: if_splits)

lemma before_not_after:
  "t \<in> set (takeWhile (\<lambda>x. x \<noteq> s) xs) \<Longrightarrow> s \<notin> set (takeWhile (\<lambda>x. x \<noteq> t) xs)"
  by (induction xs) (auto split: if_splits)

lemma precedes_indexOf:
  assumes "precedes prio s t" and "length prio \<le> 999"
  shows "indexOf prio s \<noteq> indexOf prio t \<and>
         (if indexOf prio s \<noteq> - 1 then indexOf prio s else 999) <
         (if indexOf prio t \<noteq> - 1 then indexOf prio t else 999)"
proof -
  from assms have s: "s \<in> set prio" and ts: "t \<noteq> s"
    and nt: "t \<notin> set (takeWhile (\<lambda>x. x \<noteq> s) prio)"
    by (simp_all add: precedes_def)
  have ixs: "indexOf prio s = int (length (takeWhile (\<lambda>y. y \<noteq> s) prio))"
    using s by (rule indexOf_in)
  have lt: "length (takeWhile (\<lambda>y. y \<noteq> s) prio) < length prio"
    using s by (rule takeWhile_length_less)
  show ?thesis
  proof (cases "t \<in> set prio")
    case True
    then have "indexOf prio t = int (length (takeWhile (\<lambda>y. y \<noteq> t) prio))"
      by (rule indexOf_in)
    moreover have "length (takeWhile (\<lambda>x. x \<noteq> s) prio) < length (takeWhile (\<lambda>x. x \<noteq> t) prio)"
      using s True ts nt by (rule first_before)
    ultimately show ?thesis using ixs by simp
  next
    case False
    then have "indexOf prio t = - 1" by (rule indexOf_notin)
    then show ?thesis using ixs lt assms(2) by simp
  qed
qed

lemma not_precedes_indexOf:
  assumes "\<not> precedes prio s t" and "\<not> precedes prio t s"
  shows "indexOf prio s = indexOf prio t"
proof (cases "s = t")
  case True
  then show ?thesis by simp
next
  case False
  have "s \<notin> set prio"
  proof
    assume s: "s \<in> set prio"
    with assms(1) False have "t \<in> set (takeWhile (\<lambda>x. x \<noteq> s) prio)"
      by (auto simp: precedes_def)
    then have "t \<in> set prio" and "s \<notin> set (takeWhile (\<lambda>x. x \<noteq> t) prio)"
      by (auto dest: set_takeWhileD before_not_after)
    with False have "precedes prio t s" by (auto simp: precedes_def)
    with assms(2) show False by simp
  qed
  moreover have "t \<notin> set prio"
  proof
    assume t: "t \<in> set prio"
    have "s \<notin> set (takeWhile (\<lambda>x. x \<noteq> t) prio)"
      using \<open>s \<notin> set prio\<close> by (auto dest: set_takeWhileD)
    with t False have "precedes prio t s" by (auto simp: precedes_def)
    with assms(2) show False by simp
  qed
  ultimately show ?thesis by (simp add: indexOf_notin)
qed

lemma precedes_rank:
  assumes "precedes priority (source_id a) (source_id b)"
  shows "source_index a \<noteq> source_index b \<and> source_rank a < source_rank b"
proof -
  have "length priority \<le> 999" by (simp add: priority_def)
  from precedes_indexOf [OF assms this] show ?thesis
    unfolding source_rank_def source_index_def source_id_def by simp
qed

lemma same_priority_index: "same_priority a b \<Longrightarrow> source_index a = source_index b"
  unfolding same_priority_def source_index_def source_id_def
  by (rule not_precedes_indexOf) simp_all

subsection \<open>\<^const>\<open>better\<close> and the champion\<close>

lemma js_less_irrefl: "\<not> js_less x x"
  by (cases x) simp_all

lemma better_None: "better dp a None"
  by (simp add: better_def)

lemma better_self: "\<not> better dp a (Some a)"
  by (simp add: better_def js_greater_def js_less_irrefl)

lemma better_rank_le: "better dp x (Some c) \<Longrightarrow> source_rank x \<le> source_rank c"
  by (auto simp: better_def source_rank_def Let_def split: if_splits)

lemma not_better_rank_le: "\<not> better dp x (Some c) \<Longrightarrow> source_rank c \<le> source_rank x"
  by (auto simp: better_def source_rank_def Let_def split: if_splits)

lemma better_unequal_index:
  "source_index a \<noteq> source_index b \<Longrightarrow> better dp a (Some b) = (source_rank a < source_rank b)"
  by (simp add: better_def source_rank_def Let_def)

lemma better_equal_index:
  "source_index a = source_index b \<Longrightarrow>
   better dp a (Some b) = js_greater (epochToDate dp a) (epochToDate dp b)"
  by (simp add: better_def Let_def)

lemma champion_pair:
  assumes ab: "better dp a (Some b)" and ba: "\<not> better dp b (Some a)"
    and sub: "set rs \<subseteq> {a, b}"
    and cur: "cur = Some a \<or> (a \<in> set rs \<and> (cur = None \<or> cur = Some b))"
  shows "champion dp rs cur = Some a"
  using sub cur
proof (induction rs arbitrary: cur)
  case Nil
  then show ?case by simp
next
  case (Cons r rs)
  from Cons.prems(1) have r: "r = a \<or> r = b" and sub': "set rs \<subseteq> {a, b}" by auto
  have bb: "\<not> better dp b (Some b)" and aa: "\<not> better dp a (Some a)"
    by (rule better_self)+
  have "champion dp rs (if better dp r cur then Some r else cur) = Some a"
  proof (rule Cons.IH [OF sub'])
    show "(if better dp r cur then Some r else cur) = Some a \<or>
      a \<in> set rs \<and> ((if better dp r cur then Some r else cur) = None \<or>
        (if better dp r cur then Some r else cur) = Some b)"
      using r Cons.prems(2) ab ba aa bb
      by (auto simp: better_None)
  qed
  then show ?case by simp
qed

lemma champion_keep:
  "\<forall>r \<in> set rs. \<not> better dp r (Some c) \<Longrightarrow> champion dp rs (Some c) = Some c"
  by (induction rs) simp_all

lemma champion_min:
  "r \<in> set rs \<or> cur = Some r \<Longrightarrow>
   \<exists>w. champion dp rs cur = Some w \<and> source_rank w \<le> source_rank r"
proof (induction rs arbitrary: cur r)
  case Nil
  then show ?case by simp
next
  case (Cons x rs)
  let ?cur' = "if better dp x cur then Some x else cur"
  consider (new) "better dp x cur" | (old) c where "cur = Some c" "\<not> better dp x cur"
    by (cases cur) (auto simp: better_None)
  then show ?case
  proof cases
    case new
    from Cons.prems consider "r = x" | "r \<in> set rs" | "cur = Some r" by auto
    then show ?thesis
    proof cases
      case 1
      with new Cons.IH [of r "Some x"] show ?thesis by simp
    next
      case 2
      with Cons.IH [of r ?cur'] show ?thesis by simp
    next
      case 3
      with new have "source_rank x \<le> source_rank r" by (simp add: better_rank_le)
      moreover from Cons.IH [of x "Some x"] new
      obtain w where "champion dp rs (Some x) = Some w" "source_rank w \<le> source_rank x"
        by auto
      ultimately show ?thesis using new by auto
    qed
  next
    case old
    from Cons.prems consider "r = x" | "r \<in> set rs" | "cur = Some r" by auto
    then show ?thesis
    proof cases
      case 1
      from old have "source_rank c \<le> source_rank x" by (simp add: not_better_rank_le)
      moreover from Cons.IH [of c "Some c"]
      obtain w where "champion dp rs (Some c) = Some w" "source_rank w \<le> source_rank c"
        by auto
      ultimately show ?thesis using old 1 by auto
    next
      case 2
      with Cons.IH [of r ?cur'] show ?thesis by simp
    next
      case 3
      with old Cons.IH [of r "Some r"] show ?thesis by simp
    qed
  qed
qed

text \<open>
  Claim C1. Let \<open>a\<close> and \<open>b\<close> be valid records of the same non-empty trimmed NORAD
  number, the source of \<open>a\<close> earlier in the priority list than that of \<open>b\<close> (or
  \<open>b\<close>'s unlisted). In any input that holds \<open>a\<close>, whatever the epochs and the order
  of the rows, the result for that number is never \<open>b\<close>; and where \<open>a\<close> and \<open>b\<close> are
  the only valid records of that number, the result is \<open>a\<close>.
\<close>

theorem priority_dominance:
  assumes "hasValidElems a" and "hasValidElems b"
    and "norad_of a = k" and "norad_of b = k" and "k \<noteq> []"
    and "precedes priority (source_id a) (source_id b)"
    and "a \<in> set rows"
  shows "Map_get (bestByNorad Date_parse rows []) k \<noteq> Some b \<and>
         ((\<forall>r \<in> set rows. hasValidElems r \<and> norad_of r = k \<longrightarrow> r = a \<or> r = b) \<longrightarrow>
          Map_get (bestByNorad Date_parse rows []) k = Some a)"
proof -
  let ?cs = "candidates k rows"
  have res: "Map_get (bestByNorad Date_parse rows []) k = champion Date_parse ?cs None"
    using assms(5) by (simp add: bestByNorad_champion Map_get_empty)
  have a_in: "a \<in> set ?cs"
    using assms(1,3,7) by (simp add: candidates_def)
  from precedes_rank [OF assms(6)]
  have ne: "source_index a \<noteq> source_index b" and lt: "source_rank a < source_rank b"
    by simp_all
  from champion_min [of a ?cs None Date_parse] a_in
  obtain w where w: "champion Date_parse ?cs None = Some w" "source_rank w \<le> source_rank a"
    by auto
  with lt have "w \<noteq> b" by auto
  with w res have first: "Map_get (bestByNorad Date_parse rows []) k \<noteq> Some b"
    by simp
  have second: "Map_get (bestByNorad Date_parse rows []) k = Some a"
    if only: "\<forall>r \<in> set rows. hasValidElems r \<and> norad_of r = k \<longrightarrow> r = a \<or> r = b"
  proof -
    have sub: "set ?cs \<subseteq> {a, b}"
      using only by (auto simp: candidates_def)
    have ab: "better Date_parse a (Some b)"
      using ne lt by (simp add: better_unequal_index)
    have ba: "\<not> better Date_parse b (Some a)"
      using ne lt by (simp add: better_unequal_index [of b a])
    from champion_pair [OF ab ba sub, of None] a_in res show ?thesis by simp
  qed
  from first second show ?thesis by blast
qed

subsection \<open>The example rows\<close>

lemma num_6790000: "StringToNumber ''6790000'' = Fin 6790000"
  by code_simp

lemma fin_0_0005: "isFinite (StringToNumber ''0.0005'')"
  by code_simp

lemma fin_0_9013: "isFinite (StringToNumber ''0.9013'')"
  by code_simp

lemma fin_1_5: "isFinite (StringToNumber ''1.5'')"
  by code_simp

lemma fin_2_25: "isFinite (StringToNumber ''2.25'')"
  by code_simp

lemma fin_3: "isFinite (StringToNumber ''3'')"
  by code_simp

lemma num_0: "StringToNumber ''0'' = Fin 0"
  by code_simp

lemma hasValidElems_rso_row:
  "hasValidElems (rso_row src norad epoch sma) =
     (isFinite (StringToNumber sma) \<and> js_greater (StringToNumber sma) (Fin 0) \<and> trim epoch \<noteq> [])"
  by (simp add: hasValidElems_def rso_row_def row_get_def Number_of_field_def or_empty_def
      Let_def fin_0_0005 fin_0_9013 fin_1_5 fin_2_25 fin_3)

lemma norad_of_rso_row: "norad_of (rso_row src norad epoch sma) = trim norad"
  by (simp add: norad_of_def rso_row_def row_get_def or_empty_def)

lemma source_id_rso_row: "source_id (rso_row src norad epoch sma) = trim src"
  by (simp add: source_id_def rso_row_def row_get_def String_of_def)

lemma epoch_text_rso_row: "epoch_text (rso_row src norad epoch sma) = trim epoch"
  by (simp add: epoch_text_def rso_row_def row_get_def or_empty_def)

lemma rso_row_eq:
  "rso_row s n e a = rso_row s' n' e' a' \<longleftrightarrow> s = s' \<and> n = n' \<and> e = e' \<and> a = a'"
  by (auto simp: rso_row_def)

lemma trim_examples:
  "trim ''0'' = ''0''" "trim ''4'' = ''4''" "trim ''9'' = ''9''"
  "trim ''25544'' = ''25544''" "trim '' 25544 '' = ''25544''"
  "trim ''2024-01-01'' = ''2024-01-01''" "trim ''2024-06-01'' = ''2024-06-01''"
  "trim ''n/a'' = ''n/a''" "trim '' '' = []"
  by (simp_all add: trim_def is_ws_def)

lemma valid_6790000:
  "isFinite (StringToNumber ''6790000'')" "js_greater (StringToNumber ''6790000'') (Fin 0)"
  by (simp_all add: num_6790000 isFinite_def js_greater_def)

lemma iso_date_parse_examples:
  "iso_date_parse ''2024-01-01'' = Fin 1704067200000"
  "iso_date_parse ''2024-06-01'' = Fin 1717200000000"
  "iso_date_parse ''n/a'' = NaN"
  by code_simp+

lemmas example_simps =
  hasValidElems_rso_row norad_of_rso_row source_id_rso_row epoch_text_rso_row rso_row_eq
  trim_examples valid_6790000 iso_date_parse_examples

subsection \<open>Priority first\<close>

theorem priority_dominance_witness:
  "Map_get (bestByNorad iso_date_parse
       [rso_row ''4'' '' 25544 '' ''2024-06-01'' ''6790000'',
        rso_row ''0'' ''25544'' ''2024-01-01'' ''6790000''] []) ''25544'' =
     Some (rso_row ''0'' ''25544'' ''2024-01-01'' ''6790000'') \<and>
   Map_get (bestByNorad iso_date_parse
       [rso_row ''0'' ''25544'' ''2024-01-01'' ''6790000'',
        rso_row ''9'' '' 25544 '' ''2024-06-01'' ''6790000''] []) ''25544'' =
     Some (rso_row ''0'' ''25544'' ''2024-01-01'' ''6790000'')"
proof -
  let ?a = "rso_row ''0'' ''25544'' ''2024-01-01'' ''6790000''"
  let ?b = "rso_row ''4'' '' 25544 '' ''2024-06-01'' ''6790000''"
  let ?c = "rso_row ''9'' '' 25544 '' ''2024-06-01'' ''6790000''"
  have va: "hasValidElems ?a" and vb: "hasValidElems ?b" and vc: "hasValidElems ?c"
    by (simp_all add: example_simps)
  have ka: "norad_of ?a = ''25544''" and kb: "norad_of ?b = ''25544''"
    and kc: "norad_of ?c = ''25544''"
    by (simp_all add: example_simps)
  have pab: "precedes priority (source_id ?a) (source_id ?b)"
    and pac: "precedes priority (source_id ?a) (source_id ?c)"
    by (simp_all add: example_simps precedes_def priority_def)
  have "\<forall>r \<in> set [?b, ?a]. hasValidElems r \<and> norad_of r = ''25544'' \<longrightarrow> r = ?a \<or> r = ?b"
    and "\<forall>r \<in> set [?a, ?c]. hasValidElems r \<and> norad_of r = ''25544'' \<longrightarrow> r = ?a \<or> r = ?c"
    by simp_all
  with priority_dominance [OF va vb ka kb _ pab, of "[?b, ?a]" iso_date_parse]
    priority_dominance [OF va vc ka kc _ pac, of "[?a, ?c]" iso_date_parse]
  show ?thesis by (simp del: bestByNorad.simps)
qed

subsection \<open>Then the later epoch\<close>

lemma parses_later_better:
  assumes "same_priority a b" and "parses_later dp a b"
  shows "better dp a (Some b) \<and> \<not> better dp b (Some a)"
proof -
  have idx: "source_index a = source_index b"
    using assms(1) by (rule same_priority_index)
  obtain x where a: "dp (epoch_text a) = Fin x"
    using assms(2) by (cases "dp (epoch_text a)") (simp_all add: parses_later_def isFinite_def)
  have ea: "epochToDate dp a = Fin x"
    using a by (simp add: epochToDate_def epoch_text_def isFinite_def)
  have "js_less (epochToDate dp b) (Fin x) \<and> \<not> js_less (Fin x) (epochToDate dp b)"
    using assms(2) a
    by (cases "dp (epoch_text b)")
      (auto simp: parses_later_def epochToDate_def epoch_text_def isFinite_def)
  then show ?thesis
    using idx ea by (simp add: better_equal_index [symmetric] better_equal_index js_greater_def)
qed

text \<open>
  The comparison of \<^const>\<open>better\<close> is a strict weak order: first the rank of the
  source, then the value of \<^const>\<open>epochToDate\<close>. So the loop keeps the first of the
  records that no other beats, whatever else the input holds.
\<close>

lemma source_index_range: "source_index r = - 1 \<or> (0 \<le> source_index r \<and> source_index r < 5)"
proof (cases "source_id r \<in> set priority")
  case True
  from indexOf_in [OF True] takeWhile_length_less [OF True]
  show ?thesis
    by (simp add: source_index_def source_id_def priority_def)
next
  case False
  then show ?thesis
    by (simp add: source_index_def source_id_def indexOf_notin)
qed

lemma rank_eq_iff_index: "source_rank a = source_rank b \<longleftrightarrow> source_index a = source_index b"
  using source_index_range [of a] source_index_range [of b]
  by (auto simp: source_rank_def)

lemma epochToDate_cases: "epochToDate dp r = NInf \<or> (\<exists>q. epochToDate dp r = Fin q)"
  by (cases "dp (trim (or_empty (row_get r ''Epoch'')))")
    (simp_all add: epochToDate_def isFinite_def Let_def)

lemma better_iff:
  "better dp x (Some c) \<longleftrightarrow>
     source_rank x < source_rank c \<or>
     (source_rank x = source_rank c \<and> js_less (epochToDate dp c) (epochToDate dp x))"
proof (cases "source_index x = source_index c")
  case True
  then have "source_rank x = source_rank c" by (simp add: source_rank_def)
  with True show ?thesis
    by (simp add: better_equal_index js_greater_def)
next
  case False
  then have "source_rank x \<noteq> source_rank c" by (simp add: rank_eq_iff_index)
  with False show ?thesis
    by (simp add: better_unequal_index source_rank_def)
qed

lemma better_trans:
  assumes "better dp b (Some x)" and "better dp x (Some c)"
  shows "better dp b (Some c)"
  using assms epochToDate_cases [of dp b] epochToDate_cases [of dp x] epochToDate_cases [of dp c]
  by (auto simp: better_iff)

lemma better_neg_trans:
  assumes "\<not> better dp x (Some c)" and "\<not> better dp c (Some w)"
  shows "\<not> better dp x (Some w)"
  using assms epochToDate_cases [of dp w] epochToDate_cases [of dp x] epochToDate_cases [of dp c]
  by (auto simp: better_iff)

lemma champion_append: "champion dp (xs @ ys) cur = champion dp ys (champion dp xs cur)"
  by (induction xs arbitrary: cur) simp_all

lemma champion_mem: "champion dp cs cur = Some w \<Longrightarrow> w \<in> set cs \<or> cur = Some w"
proof (induction cs arbitrary: cur)
  case Nil
  then show ?case by simp
next
  case (Cons x cs)
  from Cons.IH [of "if better dp x cur then Some x else cur"] Cons.prems
  show ?case by (auto split: if_splits)
qed

lemma champion_maximal:
  "champion dp cs cur = Some w \<Longrightarrow>
   (\<forall>r \<in> set cs. \<not> better dp r (Some w)) \<and> (\<forall>c. cur = Some c \<longrightarrow> \<not> better dp c (Some w))"
proof (induction cs arbitrary: cur)
  case Nil
  then show ?case by (simp add: better_self)
next
  case (Cons x cs)
  let ?cur' = "if better dp x cur then Some x else cur"
  from Cons.prems have w: "champion dp cs ?cur' = Some w" by simp
  from Cons.IH [OF w]
  have tail: "\<forall>r \<in> set cs. \<not> better dp r (Some w)"
    and cur': "\<forall>c. ?cur' = Some c \<longrightarrow> \<not> better dp c (Some w)" by simp_all
  show ?case
  proof (cases "better dp x cur")
    case True
    with cur' have x: "\<not> better dp x (Some w)" by simp
    have "\<not> better dp c (Some w)" if "cur = Some c" for c
    proof
      assume "better dp c (Some w)"
      with True that have "better dp x (Some w)"
        by (auto intro: better_trans)
      with x show False by simp
    qed
    with tail x show ?thesis by simp
  next
    case False
    then obtain c where c: "cur = Some c" by (cases cur) (simp_all add: better_None)
    with False cur' have cw: "\<not> better dp c (Some w)" by simp
    from False c have "\<not> better dp x (Some c)" by simp
    from better_neg_trans [OF this cw] tail cw c show ?thesis by simp
  qed
qed

lemma champion_never_later:
  "cur = Some c \<Longrightarrow> c \<noteq> b \<Longrightarrow> \<not> better dp b (Some c) \<Longrightarrow> champion dp cs cur \<noteq> Some b"
proof (induction cs arbitrary: cur c)
  case Nil
  then show ?case by simp
next
  case (Cons x cs)
  show ?case
  proof (cases "better dp x cur")
    case False
    with Cons.IH [OF Cons.prems] show ?thesis by simp
  next
    case True
    with Cons.prems(3) Cons.prems(1) have xb: "x \<noteq> b" by auto
    have "\<not> better dp b (Some x)"
    proof
      assume "better dp b (Some x)"
      with True Cons.prems(1) have "better dp b (Some c)"
        by (auto intro: better_trans)
      with Cons.prems(3) show False by simp
    qed
    from Cons.IH [OF refl xb this] True show ?thesis by simp
  qed
qed

lemma outranks_better:
  assumes "outranks dp a r"
  shows "better dp a (Some r) \<and> \<not> better dp r (Some a)"
proof (cases "precedes priority (source_id a) (source_id r)")
  case True
  from precedes_rank [OF True] show ?thesis
    by (simp add: better_iff)
next
  case False
  with assms have "same_priority a r" and "parses_later dp a r"
    by (simp_all add: outranks_def)
  then show ?thesis by (rule parses_later_better)
qed

lemma champion_top:
  assumes pre: "\<forall>r \<in> set pre. r = a \<or> better dp a (Some r)"
    and post: "\<forall>r \<in> set post. \<not> better dp r (Some a)"
  shows "champion dp (pre @ a # post) None = Some a"
proof -
  let ?c0 = "champion dp pre None"
  have "(if better dp a ?c0 then Some a else ?c0) = Some a"
  proof (cases ?c0)
    case None
    then show ?thesis by (simp add: better_None)
  next
    case (Some c)
    from champion_mem [OF Some] have "c \<in> set pre" by simp
    with pre have "c = a \<or> better dp a (Some c)" by simp
    with Some show ?thesis by auto
  qed
  with champion_keep [OF post] show ?thesis
    by (simp add: champion_append)
qed

text \<open>
  Claim C3. Let \<open>a\<close> and \<open>b\<close> be valid records of the same non-empty trimmed NORAD
  number and of equal priority (the same source, or both unlisted), the epoch of \<open>a\<close>
  parsing to a finite instant and that of \<open>b\<close> to an earlier one or not at all. In
  any input that holds \<open>a\<close>, whatever other records it holds and in whatever order,
  the result for the number is never \<open>b\<close>; and where every other valid record of the
  number is \<open>b\<close> or one that \<open>a\<close> comes before by priority or by epoch, the
  result is \<open>a\<close>.
\<close>

theorem recency_tiebreak:
  assumes "hasValidElems a" and "hasValidElems b"
    and "norad_of a = k" and "norad_of b = k" and "k \<noteq> []"
    and "same_priority a b"
    and "parses_later Date_parse a b"
    and "a \<in> set rows"
  shows "Map_get (bestByNorad Date_parse rows []) k \<noteq> Some b \<and>
         ((\<forall>r \<in> set rows. hasValidElems r \<and> norad_of r = k \<longrightarrow>
              r = a \<or> r = b \<or> outranks Date_parse a r) \<longrightarrow>
          Map_get (bestByNorad Date_parse rows []) k = Some a)"
proof -
  let ?cs = "candidates k rows"
  have res: "Map_get (bestByNorad Date_parse rows []) k = champion Date_parse ?cs None"
    using assms(5) by (simp add: bestByNorad_champion Map_get_empty)
  have a_in: "a \<in> set ?cs"
    using assms(1,3,8) by (simp add: candidates_def)
  from parses_later_better [OF assms(6,7)]
  have ab: "better Date_parse a (Some b)" and ba: "\<not> better Date_parse b (Some a)"
    by simp_all
  have first: "Map_get (bestByNorad Date_parse rows []) k \<noteq> Some b"
  proof
    assume "Map_get (bestByNorad Date_parse rows []) k = Some b"
    with res have "champion Date_parse ?cs None = Some b" by simp
    from champion_maximal [OF this] a_in have "\<not> better Date_parse a (Some b)" by simp
    with ab show False by simp
  qed
  have second: "Map_get (bestByNorad Date_parse rows []) k = Some a"
    if only: "\<forall>r \<in> set rows. hasValidElems r \<and> norad_of r = k \<longrightarrow>
                r = a \<or> r = b \<or> outranks Date_parse a r"
  proof -
    have dom: "r = a \<or> (better Date_parse a (Some r) \<and> \<not> better Date_parse r (Some a))"
      if "r \<in> set ?cs" for r
    proof -
      from that only have "r = a \<or> r = b \<or> outranks Date_parse a r"
        by (simp add: candidates_def)
      with ab ba outranks_better [of Date_parse a r] show ?thesis by blast
    qed
    from a_in obtain pre post where cs: "?cs = pre @ a # post"
      by (auto dest: split_list)
    have "\<forall>r \<in> set pre. r = a \<or> better Date_parse a (Some r)"
      using dom cs by auto
    moreover have "\<forall>r \<in> set post. \<not> better Date_parse r (Some a)"
      using dom cs better_self [of Date_parse a] by auto
    ultimately have "champion Date_parse (pre @ a # post) None = Some a"
      by (rule champion_top)
    with res cs show ?thesis by simp
  qed
  from first second show ?thesis by blast
qed

theorem recency_tiebreak_witness:
  "Map_get (bestByNorad iso_date_parse
       [rso_row ''0'' ''25544'' ''2024-01-01'' ''6790000'',
        rso_row ''4'' ''25544'' ''2024-06-01'' ''6790000'',
        rso_row ''0'' ''25544'' ''2024-06-01'' ''6790000''] []) ''25544'' =
     Some (rso_row ''0'' ''25544'' ''2024-06-01'' ''6790000'') \<and>
   Map_get (bestByNorad iso_date_parse
       [rso_row ''9'' ''25544'' ''2024-01-01'' ''6790000'',
        rso_row ''9'' ''25544'' ''n/a'' ''6790000''] []) ''25544'' =
     Some (rso_row ''9'' ''25544'' ''2024-01-01'' ''6790000'') \<and>
   Map_get (bestByNorad iso_date_parse
       [rso_row ''9'' ''25544'' ''2024-01-01'' ''6790000'',
        rso_row ''0'' ''25544'' ''2024-01-01'' ''6790000'',
        rso_row ''9'' ''25544'' ''2024-06-01'' ''6790000''] []) ''25544'' \<noteq>
     Some (rso_row ''9'' ''25544'' ''2024-01-01'' ''6790000'')"
proof -
  let ?a = "rso_row ''0'' ''25544'' ''2024-06-01'' ''6790000''"
  let ?b = "rso_row ''0'' ''25544'' ''2024-01-01'' ''6790000''"
  let ?x = "rso_row ''4'' ''25544'' ''2024-06-01'' ''6790000''"
  let ?c = "rso_row ''9'' ''25544'' ''2024-01-01'' ''6790000''"
  let ?d = "rso_row ''9'' ''25544'' ''n/a'' ''6790000''"
  let ?e = "rso_row ''9'' ''25544'' ''2024-06-01'' ''6790000''"
  have v: "hasValidElems ?a" "hasValidElems ?b" "hasValidElems ?c" "hasValidElems ?d"
    "hasValidElems ?e"
    by (simp_all add: example_simps)
  have k: "norad_of ?a = ''25544''" "norad_of ?b = ''25544''"
    "norad_of ?c = ''25544''" "norad_of ?d = ''25544''" "norad_of ?e = ''25544''"
    by (simp_all add: example_simps)
  have sp: "same_priority ?a ?b" "same_priority ?c ?d" "same_priority ?e ?c"
    by (simp_all add: same_priority_def precedes_def example_simps)
  have pl: "parses_later iso_date_parse ?a ?b" "parses_later iso_date_parse ?c ?d"
    "parses_later iso_date_parse ?e ?c"
    by (simp_all add: parses_later_def isFinite_def example_simps)
  have "outranks iso_date_parse ?a ?x"
    by (simp add: outranks_def precedes_def priority_def example_simps)
  then have "\<forall>r \<in> set [?b, ?x, ?a]. hasValidElems r \<and> norad_of r = ''25544'' \<longrightarrow>
      r = ?a \<or> r = ?b \<or> outranks iso_date_parse ?a r"
    by simp
  moreover have "\<forall>r \<in> set [?c, ?d]. hasValidElems r \<and> norad_of r = ''25544'' \<longrightarrow>
      r = ?c \<or> r = ?d \<or> outranks iso_date_parse ?c r"
    by simp
  ultimately show ?thesis
    using recency_tiebreak [OF v(1) v(2) k(1) k(2) _ sp(1) pl(1), of "[?b, ?x, ?a]"]
      recency_tiebreak [OF v(3) v(4) k(3) k(4) _ sp(2) pl(2), of "[?c, ?d]"]
      recency_tiebreak [OF v(5) v(3) k(5) k(3) _ sp(3) pl(3), of "[?c, ?b, ?e]"]
    by (simp del: bestByNorad.simps)
qed

subsection \<open>Then the first seen\<close>

text \<open>
  Claim C4. Let \<open>a\<close> and \<open>b\<close> be valid records of the same non-empty trimmed NORAD
  number, of equal priority and with the same parsed epoch (\<^const>\<open>epochToDate\<close>
  gives the same value, also when neither parses), \<open>a\<close> standing in the input before
  the first \<open>b\<close>. Whatever other records the input holds, the result for the number
  is never \<open>b\<close> (unless \<open>b\<close> is the same record as \<open>a\<close>); and where every other
  valid record of the number is one that \<open>a\<close> comes before by priority or by epoch,
  the result is \<open>a\<close>. The result is a function of the input rows (and of
  \<^verbatim>\<open>Date.parse\<close>) alone, so every run on the same rows gives it.
\<close>

theorem first_seen_wins_on_tie:
  assumes "hasValidElems a" and "hasValidElems b"
    and "norad_of a = k" and "norad_of b = k" and "k \<noteq> []"
    and "same_priority a b"
    and "epochToDate Date_parse a = epochToDate Date_parse b"
    and "rows = pre @ a # post"
    and "b \<notin> set pre"
  shows "(a \<noteq> b \<longrightarrow> Map_get (bestByNorad Date_parse rows []) k \<noteq> Some b) \<and>
         ((\<forall>r \<in> set rows. hasValidElems r \<and> norad_of r = k \<longrightarrow>
              r = a \<or> r = b \<or> outranks Date_parse a r) \<longrightarrow>
          Map_get (bestByNorad Date_parse rows []) k = Some a)"
proof -
  let ?c0 = "champion Date_parse (candidates k pre) None"
  let ?c1 = "if better Date_parse a ?c0 then Some a else ?c0"
  have cs: "candidates k rows = candidates k pre @ a # candidates k post"
    using assms(1,3,8) by (simp add: candidates_def)
  have res0: "Map_get (bestByNorad Date_parse rows []) k =
      champion Date_parse (candidates k rows) None"
    using assms(5) by (simp add: bestByNorad_champion Map_get_empty)
  then have res: "Map_get (bestByNorad Date_parse rows []) k =
      champion Date_parse (candidates k post) ?c1"
    by (simp add: cs champion_append)
  have idx: "source_index b = source_index a"
    using assms(6) by (simp add: same_priority_index)
  have ba: "\<not> better Date_parse b (Some a)"
    using idx assms(7) by (simp add: better_equal_index js_greater_def js_less_irrefl)
  have c0_not_b: "?c0 \<noteq> Some b"
  proof
    assume "?c0 = Some b"
    from champion_mem [OF this] have "b \<in> set (candidates k pre)" by simp
    with assms(9) show False by (simp add: candidates_def)
  qed
  have first: "Map_get (bestByNorad Date_parse rows []) k \<noteq> Some b" if ne: "a \<noteq> b"
  proof -
    obtain c where c: "?c1 = Some c" and cb: "c \<noteq> b" and bc: "\<not> better Date_parse b (Some c)"
    proof (cases "better Date_parse a ?c0")
      case True
      with ne ba that [of a] show ?thesis by simp
    next
      case False
      then obtain c where c0: "?c0 = Some c" by (cases ?c0) (simp_all add: better_None)
      with False have "\<not> better Date_parse a (Some c)" by simp
      from better_neg_trans [OF ba this] have "\<not> better Date_parse b (Some c)" .
      with c0 c0_not_b False that [of c] show ?thesis by simp
    qed
    from champion_never_later [OF c cb bc] res show ?thesis by simp
  qed
  have second: "Map_get (bestByNorad Date_parse rows []) k = Some a"
    if only: "\<forall>r \<in> set rows. hasValidElems r \<and> norad_of r = k \<longrightarrow>
                r = a \<or> r = b \<or> outranks Date_parse a r"
  proof -
    have "\<forall>r \<in> set (candidates k pre). r = a \<or> better Date_parse a (Some r)"
      using only assms(8,9) outranks_better [of Date_parse a] by (auto simp: candidates_def)
    moreover have "\<forall>r \<in> set (candidates k post). \<not> better Date_parse r (Some a)"
      using only assms(8) ba better_self [of Date_parse a] outranks_better [of Date_parse a]
      by (auto simp: candidates_def)
    ultimately have "champion Date_parse (candidates k pre @ a # candidates k post) None = Some a"
      by (rule champion_top)
    with res0 cs show ?thesis by simp
  qed
  from first second show ?thesis by blast
qed

theorem first_seen_wins_on_tie_witness:
  "Map_get (bestByNorad iso_date_parse
       [rso_row ''4'' ''25544'' ''2024-06-01'' ''6790000'',
        rso_row ''0'' ''25544'' ''2024-01-01'' ''6790000'',
        rso_row ''0'' '' 25544 '' ''2024-01-01'' ''6790000'',
        rso_row ''0'' ''25544'' ''2024-01-01'' '' ''] []) ''25544'' =
     Some (rso_row ''0'' ''25544'' ''2024-01-01'' ''6790000'') \<and>
   Map_get (bestByNorad iso_date_parse
       [rso_row ''0'' ''25544'' ''2024-01-01'' ''6790000'',
        rso_row ''0'' ''25544'' ''2024-06-01'' ''6790000'',
        rso_row ''0'' '' 25544 '' ''2024-01-01'' ''6790000''] []) ''25544'' \<noteq>
     Some (rso_row ''0'' '' 25544 '' ''2024-01-01'' ''6790000'')"
proof -
  let ?a = "rso_row ''0'' ''25544'' ''2024-01-01'' ''6790000''"
  let ?b = "rso_row ''0'' '' 25544 '' ''2024-01-01'' ''6790000''"
  let ?x = "rso_row ''4'' ''25544'' ''2024-06-01'' ''6790000''"
  let ?y = "rso_row ''0'' ''25544'' ''2024-06-01'' ''6790000''"
  let ?c = "rso_row ''0'' ''25544'' ''2024-01-01'' '' ''"
  have v: "hasValidElems ?a" "hasValidElems ?b"
    by (simp_all add: example_simps)
  have k: "norad_of ?a = ''25544''" "norad_of ?b = ''25544''"
    by (simp_all add: example_simps)
  have sp: "same_priority ?a ?b"
    by (simp add: same_priority_def precedes_def example_simps)
  have e: "epochToDate iso_date_parse ?a = epochToDate iso_date_parse ?b"
    by (simp add: epochToDate_def epoch_text_def [symmetric] example_simps)
  have ne: "?a \<noteq> ?b" "?b \<noteq> ?x"
    by (simp_all add: example_simps)
  have "StringToNumber '' '' = Fin 0"
    by code_simp
  then have "\<not> js_greater (StringToNumber '' '') (Fin 0)"
    by (simp add: js_greater_def)
  then have c: "\<not> hasValidElems ?c"
    by (simp add: hasValidElems_def rso_row_def row_get_def Number_of_field_def)
  have "outranks iso_date_parse ?a ?x"
    by (simp add: outranks_def precedes_def priority_def example_simps)
  with c have "\<forall>r \<in> set ([?x] @ ?a # [?b, ?c]). hasValidElems r \<and> norad_of r = ''25544'' \<longrightarrow>
      r = ?a \<or> r = ?b \<or> outranks iso_date_parse ?a r"
    by simp
  then show ?thesis
    using ne first_seen_wins_on_tie [OF v k _ sp e, of "[?x] @ ?a # [?b, ?c]" "[?x]" "[?b, ?c]"]
      first_seen_wins_on_tie [OF v k _ sp e, of "[] @ ?a # [?y, ?b]" "[]" "[?y, ?b]"]
    by (simp del: bestByNorad.simps)
qed


section \<open>The validity filter\<close>

lemma set_update_subset: "set (AList.update k v m) \<subseteq> insert (k, v) (set m)"
  by (induction m) auto

lemma bestByNorad_filter:
  "bestByNorad dp rows best = bestByNorad dp (filter hasValidElems rows) best"
  by (induction rows arbitrary: best) (simp_all add: Let_def)

lemma bestByNorad_entries:
  "(k, w) \<in> set (bestByNorad dp rows best) \<Longrightarrow>
   (k, w) \<in> set best \<or> (w \<in> set rows \<and> hasValidElems w \<and> norad_of w = k \<and> k \<noteq> [])"
proof (induction rows arbitrary: best)
  case Nil
  then show ?case by simp
next
  case (Cons r rows)
  show ?case
  proof (cases "hasValidElems r \<and> norad_of r \<noteq> [] \<and> better dp r (Map_get best (norad_of r))")
    case True
    with Cons.prems have "(k, w) \<in> set (bestByNorad dp rows (Map_set best (norad_of r) r))"
      by (simp add: Let_def)
    from Cons.IH [OF this] True show ?thesis
      using set_update_subset [of "norad_of r" r best] by (auto simp: Map_set_def)
  next
    case False
    with Cons.prems have "(k, w) \<in> set (bestByNorad dp rows best)"
      by (auto simp: Let_def split: if_splits)
    from Cons.IH [OF this] show ?thesis by auto
  qed
qed

text \<open>
  Claim C5, as the code has it. \<^const>\<open>hasValidElems\<close> holds exactly when
  \<^verbatim>\<open>Number\<close> of the semi-major axis field is finite and above 0, \<^verbatim>\<open>Number\<close> of the
  eccentricity, inclination, RAAN, argument of perigee and mean anomaly fields is
  finite, and the epoch field is not empty after trimming white space. A row for which
  it fails does not change the reconciled map (the map is the one of the input without
  such rows), and no such row is a value of the map.
\<close>

theorem hasValidElems_iff_and_exclusion:
  "(hasValidElems r \<longleftrightarrow>
      isFinite (Number_of_field (row_get r ''SMA'')) \<and>
      js_greater (Number_of_field (row_get r ''SMA'')) (Fin 0) \<and>
      isFinite (Number_of_field (row_get r ''Ecc'')) \<and>
      isFinite (Number_of_field (row_get r ''Inc'')) \<and>
      isFinite (Number_of_field (row_get r ''RAAN'')) \<and>
      isFinite (Number_of_field (row_get r ''ArgP'')) \<and>
      isFinite (Number_of_field (row_get r ''MeanAnom'')) \<and>
      trim (or_empty (row_get r ''Epoch'')) \<noteq> []) \<and>
   bestByNorad Date_parse rows best = bestByNorad Date_parse (filter hasValidElems rows) best \<and>
   (\<forall>(k, w) \<in> set (bestByNorad Date_parse rows []). hasValidElems w)"
proof -
  have "hasValidElems r \<longleftrightarrow>
      isFinite (Number_of_field (row_get r ''SMA'')) \<and>
      js_greater (Number_of_field (row_get r ''SMA'')) (Fin 0) \<and>
      isFinite (Number_of_field (row_get r ''Ecc'')) \<and>
      isFinite (Number_of_field (row_get r ''Inc'')) \<and>
      isFinite (Number_of_field (row_get r ''RAAN'')) \<and>
      isFinite (Number_of_field (row_get r ''ArgP'')) \<and>
      isFinite (Number_of_field (row_get r ''MeanAnom'')) \<and>
      trim (or_empty (row_get r ''Epoch'')) \<noteq> []"
    by (auto simp: hasValidElems_def Let_def)
  moreover have "bestByNorad Date_parse rows best =
      bestByNorad Date_parse (filter hasValidElems rows) best"
    by (rule bestByNorad_filter)
  moreover have "\<forall>(k, w) \<in> set (bestByNorad Date_parse rows []). hasValidElems w"
    using bestByNorad_entries [of _ _ Date_parse rows "[]"] by auto
  ultimately show ?thesis by blast
qed

theorem hasValidElems_iff_and_exclusion_witness:
  "hasValidElems (rso_row ''0'' ''25544'' ''2024-01-01'' ''6790000'') \<and>
   \<not> hasValidElems (rso_row ''4'' ''25544'' ''2024-06-01'' ''0'') \<and>
   bestByNorad iso_date_parse
     [rso_row ''4'' ''25544'' ''2024-06-01'' ''0'',
      rso_row ''0'' ''25544'' ''2024-01-01'' ''6790000''] [] =
     [(''25544'', rso_row ''0'' ''25544'' ''2024-01-01'' ''6790000'')]"
proof -
  let ?a = "rso_row ''0'' ''25544'' ''2024-01-01'' ''6790000''"
  let ?z = "rso_row ''4'' ''25544'' ''2024-06-01'' ''0''"
  have z: "\<not> hasValidElems ?z"
    by (simp add: example_simps num_0 js_greater_def)
  have a: "hasValidElems ?a"
    by (simp add: example_simps)
  have "bestByNorad iso_date_parse [?a] [] = [(''25544'', ?a)]"
    using a by (simp add: example_simps better_None Map_get_def Map_set_def Let_def)
  moreover have "filter hasValidElems [?z, ?a] = [?a]"
    using a z by simp
  ultimately show ?thesis
    using a z hasValidElems_iff_and_exclusion [of ?a iso_date_parse "[?z, ?a]" "[]"]
    by (simp del: bestByNorad.simps)
qed

text \<open>
  Claim C5 as the specification words it, with the epoch only required to be a
  non-empty string, fails: an epoch of one blank is a non-empty string, and the code
  rejects the row.
\<close>

theorem spec_isValid_counterexample:
  "spec_isValid (rso_row ''0'' ''25544'' '' '' ''6790000'') \<and>
   \<not> hasValidElems (rso_row ''0'' ''25544'' '' '' ''6790000'')"
proof -
  have "spec_isValid (rso_row ''0'' ''25544'' '' '' ''6790000'')"
    by (simp add: spec_isValid_def rso_row_def row_get_def Number_of_field_def
        fin_0_0005 fin_0_9013 fin_1_5 fin_2_25 fin_3 valid_6790000)
  moreover have "\<not> hasValidElems (rso_row ''0'' ''25544'' '' '' ''6790000'')"
    by (simp add: example_simps)
  ultimately show ?thesis by simp
qed

section \<open>The descriptor table\<close>

lemma set_first_seen: "set (first_seen xs) = set xs"
  by (induction xs) auto

lemma distinct_first_seen: "distinct (first_seen xs)"
  by (induction xs) (auto simp: set_first_seen)

lemma first_seen_filter: "filter P (first_seen xs) = first_seen (filter P xs)"
proof (induction xs)
  case Nil
  then show ?case by simp
next
  case (Cons x xs)
  have swap: "filter P (filter (\<lambda>y. y \<noteq> x) (first_seen xs)) =
        filter (\<lambda>y. y \<noteq> x) (filter P (first_seen xs))"
    by (simp add: conj_commute)
  show ?case
  proof (cases "P x")
    case True
    with Cons swap show ?thesis by simp
  next
    case False
    then have "x \<notin> set (first_seen (filter P xs))"
      by (simp add: set_first_seen)
    then have "filter (\<lambda>y. y \<noteq> x) (first_seen (filter P xs)) = first_seen (filter P xs)"
      by (simp add: filter_id_conv) blast
    with False Cons swap show ?thesis by simp
  qed
qed

lemma idToName_keys:
  "map fst (idToName rows m) =
     map fst m @
     first_seen (filter (\<lambda>i. i \<notin> set (map fst m)) (filter (\<lambda>i. i \<noteq> []) (map ds_id rows)))"
proof (induction rows arbitrary: m)
  case Nil
  then show ?case by simp
next
  case (Cons r rows)
  let ?K = "set (map fst m)"
  let ?ids = "filter (\<lambda>i. i \<noteq> []) (map ds_id rows)"
  show ?case
  proof (cases "ds_id r = []")
    case True
    with Cons show ?thesis by simp
  next
    case False
    note ne = this
    show ?thesis
    proof (cases "ds_id r \<in> ?K")
      case True
      then have "map fst (Map_set m (ds_id r) (ds_name r)) = map fst m"
        by (simp add: Map_set_def update_keys)
      with Cons.IH [of "Map_set m (ds_id r) (ds_name r)"] ne True
      show ?thesis by simp
    next
      case False
      then have k: "map fst (Map_set m (ds_id r) (ds_name r)) = map fst m @ [ds_id r]"
        by (simp add: Map_set_def update_keys)
      have "filter (\<lambda>i. i \<notin> set (map fst m @ [ds_id r])) ?ids =
            filter (\<lambda>y. y \<noteq> ds_id r) (filter (\<lambda>i. i \<notin> ?K) ?ids)"
        by (auto intro: filter_cong)
      with Cons.IH [of "Map_set m (ds_id r) (ds_name r)"] ne False k
      show ?thesis by (simp add: first_seen_filter)
    qed
  qed
qed

lemma idToName_value:
  "i \<noteq> [] \<Longrightarrow> Map_get (idToName rows m) i =
     (case filter (\<lambda>r. ds_id r = i) rows of
        [] \<Rightarrow> Map_get m i
      | r # rs \<Rightarrow> Some (ds_name (last (r # rs))))"
proof (induction rows arbitrary: m)
  case Nil
  then show ?case by simp
next
  case (Cons r rows)
  then show ?case
    by (auto simp: Map_get_set split: list.splits)
qed

lemma idToName_drop_empty:
  "idToName rows m = idToName (filter (\<lambda>r. ds_id r \<noteq> []) rows) m"
  by (induction rows arbitrary: m) simp_all

lemma map_by_keys:
  "distinct (map fst m) \<Longrightarrow>
   map (\<lambda>(i, n). f i n) m = map (\<lambda>i. f i (the (map_of m i))) (map fst m)"
proof (induction m)
  case Nil
  then show ?case by simp
next
  case (Cons p m)
  obtain k v where p: "p = (k, v)" by (cases p)
  from Cons.prems p have k: "k \<notin> fst ` set m" and d: "distinct (map fst m)" by simp_all
  have "map (\<lambda>i. f i (the (map_of ((k, v) # m) i))) (map fst m) =
        map (\<lambda>i. f i (the (map_of m i))) (map fst m)"
    using k by (intro map_cong) auto
  with Cons.IH [OF d] p show ?case by simp
qed

text \<open>
  Claim C10. The text \<^const>\<open>dsOut\<close> that is written to the descriptor file is the
  header line followed by one line for each non-empty trimmed id of the input rows,
  each id once, in the order of first occurrence, with the name computed from the last
  input row of that id. The entries of \<^verbatim>\<open>idToName\<close> have these ids as their keys;
  a row whose id trims to the empty string changes nothing.
\<close>

theorem descriptor_table_rows:
  "dsOut (idToName rows []) =
     join [LF] ((''Code'' @ [TAB] @ ''Name'') #
       map (\<lambda>i. i @ [TAB] @ ds_name (last (filter (\<lambda>r. ds_id r = i) rows)))
         (first_seen (filter (\<lambda>i. i \<noteq> []) (map ds_id rows)))) \<and>
   map fst (idToName rows []) = first_seen (filter (\<lambda>i. i \<noteq> []) (map ds_id rows)) \<and>
   distinct (map fst (idToName rows [])) \<and>
   idToName rows [] = idToName (filter (\<lambda>r. ds_id r \<noteq> []) rows) [] \<and>
   (\<forall>r \<in> set rows. ds_id r \<noteq> [] \<longrightarrow>
      Map_get (idToName rows []) (ds_id r) =
        Some (ds_name (last (filter (\<lambda>r'. ds_id r' = ds_id r) rows))))"
proof -
  let ?ids = "first_seen (filter (\<lambda>i. i \<noteq> []) (map ds_id rows))"
  have keys: "map fst (idToName rows []) = ?ids"
    by (simp add: idToName_keys)
  have dist: "distinct (map fst (idToName rows []))"
    by (simp add: keys distinct_first_seen)
  have val: "Map_get (idToName rows []) (ds_id r) =
        Some (ds_name (last (filter (\<lambda>r'. ds_id r' = ds_id r) rows)))"
    if "r \<in> set rows" and "ds_id r \<noteq> []" for r
  proof -
    from that(1) have "filter (\<lambda>r'. ds_id r' = ds_id r) rows \<noteq> []"
      by (auto simp: filter_empty_conv)
    then show ?thesis
      using that(2) by (auto simp: idToName_value split: list.splits)
  qed
  have "map (\<lambda>(i, n). i @ [TAB] @ n) (idToName rows []) =
        map (\<lambda>i. i @ [TAB] @ the (map_of (idToName rows []) i)) (map fst (idToName rows []))"
    using dist by (rule map_by_keys)
  also have "\<dots> = map (\<lambda>i. i @ [TAB] @ the (Map_get (idToName rows []) i)) ?ids"
    by (simp only: keys Map_get_def)
  also have "\<dots> = map (\<lambda>i. i @ [TAB] @ ds_name (last (filter (\<lambda>r. ds_id r = i) rows))) ?ids"
  proof (rule map_cong [OF refl])
    fix i assume "i \<in> set ?ids"
    then obtain r where "r \<in> set rows" and "ds_id r = i" and "i \<noteq> []"
      by (auto simp: set_first_seen)
    with val [of r] show "i @ [TAB] @ the (Map_get (idToName rows []) i) =
        i @ [TAB] @ ds_name (last (filter (\<lambda>r. ds_id r = i) rows))"
      by auto
  qed
  finally have out: "dsOut (idToName rows []) =
     join [LF] ((''Code'' @ [TAB] @ ''Name'') #
       map (\<lambda>i. i @ [TAB] @ ds_name (last (filter (\<lambda>r. ds_id r = i) rows))) ?ids)"
    by (simp only: dsOut_def)
  from out keys dist val show ?thesis
    using idToName_drop_empty [of rows "[]"] by simp
qed

theorem descriptor_table_rows_witness:
  "dsOut (idToName [ds_row ''0'' ''USSPACECOM'', ds_row '' '' ''blank'',
                    ds_row ''4'' '' SeeSat-L'', ds_row '' 0'' ''Space-Track''] []) =
     ''Code'' @ [TAB] @ ''Name'' @ [LF] @ ''0'' @ [TAB] @ ''Space-Track'' @ [LF] @
     ''4'' @ [TAB] @ ''SeeSat-L'' \<and>
   idToName [ds_row ''0'' ''USSPACECOM'', ds_row '' '' ''blank'', ds_row ''4'' '' SeeSat-L'',
             ds_row '' 0'' ''Space-Track''] [] =
     [(''0'', ''Space-Track''), (''4'', ''SeeSat-L'')] \<and>
   first_seen (filter (\<lambda>i. i \<noteq> [])
     (map ds_id [ds_row ''0'' ''USSPACECOM'', ds_row '' '' ''blank'', ds_row ''4'' '' SeeSat-L'',
                 ds_row '' 0'' ''Space-Track''])) = [''0'', ''4''] \<and>
   ds_name (last (filter (\<lambda>r'. ds_id r' = ''0'')
     [ds_row ''0'' ''USSPACECOM'', ds_row '' '' ''blank'', ds_row ''4'' '' SeeSat-L'',
      ds_row '' 0'' ''Space-Track''])) = ''Space-Track''"
proof -
  let ?rows = "[ds_row ''0'' ''USSPACECOM'', ds_row '' '' ''blank'', ds_row ''4'' '' SeeSat-L'',
                ds_row '' 0'' ''Space-Track'']"
  have t: "trim ''0'' = ''0''" "trim '' '' = []" "trim ''4'' = ''4''" "trim '' 0'' = ''0''"
    "trim ''USSPACECOM'' = ''USSPACECOM''" "trim ''blank'' = ''blank''"
    "trim '' SeeSat-L'' = ''SeeSat-L''" "trim ''Space-Track'' = ''Space-Track''"
    by (simp_all add: trim_def is_ws_def)
  have i: "ds_id (ds_row a b) = trim a" for a b
    by (simp add: ds_id_def ds_row_def row_get_def or_empty_def)
  have n: "ds_name (ds_row '' 0'' ''Space-Track'') = ''Space-Track''"
    "ds_name (ds_row ''4'' '' SeeSat-L'') = ''SeeSat-L''"
    "ds_name (ds_row ''0'' ''USSPACECOM'') = ''USSTRATCOM''"
    by (simp_all add: ds_name_def ds_id_def t ds_row_def row_get_def or_empty_def
        toUpperCase_def upper_char_def str_includes_def Let_def)
  have m: "idToName ?rows [] = [(''0'', ''Space-Track''), (''4'', ''SeeSat-L'')]"
    by (simp add: i t n Map_set_def)
  have "dsOut (idToName ?rows []) =
     join [LF] ((''Code'' @ [TAB] @ ''Name'') #
       map (\<lambda>i. i @ [TAB] @ ds_name (last (filter (\<lambda>r. ds_id r = i) ?rows)))
         (first_seen (filter (\<lambda>i. i \<noteq> []) (map ds_id ?rows))))"
    using descriptor_table_rows [of ?rows] by (rule conjunct1)
  then have out: "dsOut (idToName ?rows []) =
     ''Code'' @ [TAB] @ ''Name'' @ [LF] @ ''0'' @ [TAB] @ ''Space-Track'' @ [LF] @
     ''4'' @ [TAB] @ ''SeeSat-L''"
    by (simp add: i t n del: idToName.simps)
  have "idToName ?rows [] = [(''0'', ''Space-Track''), (''4'', ''SeeSat-L'')] \<and>
    first_seen (filter (\<lambda>i. i \<noteq> []) (map ds_id ?rows)) = [''0'', ''4''] \<and>
    ds_name (last (filter (\<lambda>r'. ds_id r' = ''0'') ?rows)) = ''Space-Track''"
    by (simp add: m i t n del: idToName.simps)
  with out show ?thesis
    by (rule conjI)
qed


section \<open>The object table\<close>

lemma Map_get_None: "k \<notin> set (map fst m) \<Longrightarrow> Map_get m k = None"
  by (simp add: Map_get_def map_of_eq_None_iff)

lemma bestByNorad_keys:
  "map fst (bestByNorad dp rows best) =
     map fst best @
     first_seen (filter (\<lambda>k. k \<notin> set (map fst best))
       (filter (\<lambda>k. k \<noteq> []) (map norad_of (filter hasValidElems rows))))"
proof (induction rows arbitrary: best)
  case Nil
  then show ?case by simp
next
  case (Cons r rows)
  let ?K = "set (map fst best)"
  let ?ks = "filter (\<lambda>k. k \<noteq> []) (map norad_of (filter hasValidElems rows))"
  show ?case
  proof (cases "hasValidElems r \<and> norad_of r \<noteq> []")
    case False
    with Cons show ?thesis by auto
  next
    case True
    note ok = this
    show ?thesis
    proof (cases "norad_of r \<in> ?K")
      case True
      then have "map fst (Map_set best (norad_of r) r) = map fst best"
        by (simp add: Map_set_def update_keys)
      with Cons.IH [of "Map_set best (norad_of r) r"] Cons.IH [of best] ok True
      show ?thesis by (simp add: Let_def)
    next
      case False
      then have k: "map fst (Map_set best (norad_of r) r) = map fst best @ [norad_of r]"
        by (simp add: Map_set_def update_keys)
      have b: "better dp r (Map_get best (norad_of r))"
        using False by (simp add: Map_get_None better_None)
      have "filter (\<lambda>k. k \<notin> set (map fst best @ [norad_of r])) ?ks =
            filter (\<lambda>y. y \<noteq> norad_of r) (filter (\<lambda>k. k \<notin> ?K) ?ks)"
        by (auto intro: filter_cong)
      with Cons.IH [of "Map_set best (norad_of r) r"] ok False k b
      show ?thesis by (simp add: Let_def first_seen_filter)
    qed
  qed
qed

lemma source_index_rso_row: "source_index (rso_row src norad epoch sma) = indexOf priority (trim src)"
  by (simp add: source_index_def source_id_def [symmetric] source_id_rso_row)

lemma epochToDate_rso_row:
  "epochToDate dp (rso_row src norad epoch sma) =
     (if isFinite (dp (trim epoch)) then dp (trim epoch) else NInf)"
  by (simp add: epochToDate_def epoch_text_def [symmetric] epoch_text_rso_row Let_def)

lemma extract_example:
  "extractBacktick ''dataSources'' example_js = Inr example_dataSources"
  "extractBacktick ''intactRso'' example_js = Inr example_intactRso"
  by code_simp+

lemma parse_example_dataSources:
  "parseTSV example_dataSources =
     Inr ([''DataSourceId'', ''Name''], [ds_row ''0'' ''USSPACECOM''])"
  by code_simp

lemma parse_example_intactRso:
  "parseTSV example_intactRso =
     Inr ([''DataSourceId'', ''Name'', ''NoradId'', ''OrbitType'', ''Epoch'', ''SMA'', ''Ecc'',
           ''Inc'', ''RAAN'', ''ArgP'', ''MeanAnom''],
          [rso_row ''0'' ''25544'' ''2024-01-01'' ''6790000'',
           rso_row ''4'' ''25544'' ''2024-06-01'' ''6790000'',
           rso_row ''0'' ''25544'' ''2024-06-01'' ''6790000'',
           rso_row ''9'' ''20580'' ''2024-01-01'' ''6790000''])"
  by code_simp

lemma idToName_example: "idToName [ds_row ''0'' ''USSPACECOM''] [] = [(''0'', ''USSTRATCOM'')]"
  by (simp add: ds_name_def ds_id_def ds_row_def row_get_def or_empty_def toUpperCase_def
      upper_char_def str_includes_def Let_def Map_set_def trim_def is_ws_def)

lemma bestByNorad_example:
  "bestByNorad iso_date_parse
     [rso_row ''0'' ''25544'' ''2024-01-01'' ''6790000'',
      rso_row ''4'' ''25544'' ''2024-06-01'' ''6790000'',
      rso_row ''0'' ''25544'' ''2024-06-01'' ''6790000'',
      rso_row ''9'' ''20580'' ''2024-01-01'' ''6790000''] [] = objects example_tables"
proof -
  have t: "trim ''20580'' = ''20580''"
    by (simp add: trim_def is_ws_def)
  show ?thesis
    by (simp add: example_tables_def example_simps t Let_def Map_get_def Map_set_def
        better_def source_index_rso_row epochToDate_rso_row priority_def isFinite_def
        js_greater_def num_6790000)
qed

lemma convert_example: "convert iso_date_parse example_js = Inr example_tables"
  by (simp add: convert_def extract_example parse_example_dataSources parse_example_intactRso
      idToName_example bestByNorad_example example_tables_def del: bestByNorad.simps idToName.simps)

text \<open>
  Claim C2, as the code has it. The object table has one row for every NORAD number
  that has a valid record, in the order in which the numbers first appear, the row is
  made of the columns of the winning record, and its DataSource value is the trimmed
  \<^verbatim>\<open>DataSourceId\<close> of that record. The text written to the object file is
  the header line followed by these rows. The descriptors take no part in it: no row is
  dropped for a source without descriptor.
\<close>

theorem object_table_keeps_every_object:
  "map fst (bestByNorad Date_parse rows []) =
     first_seen (filter (\<lambda>k. k \<noteq> []) (map norad_of (filter hasValidElems rows))) \<and>
   outRows (bestByNorad Date_parse rows []) =
     map (\<lambda>(k, r). join [TAB] (nodeb_cols r)) (bestByNorad Date_parse rows []) \<and>
   (\<forall>(k, r) \<in> set (bestByNorad Date_parse rows []).
      r \<in> set rows \<and> hd (nodeb_cols r) = ds_id r) \<and>
   nodebOut (bestByNorad Date_parse rows []) =
     join [LF] (join [TAB] headerOut #
       map (\<lambda>(k, r). join [TAB] (nodeb_cols r)) (bestByNorad Date_parse rows []))"
proof -
  have "map fst (bestByNorad Date_parse rows []) =
     first_seen (filter (\<lambda>k. k \<noteq> []) (map norad_of (filter hasValidElems rows)))"
    by (simp add: bestByNorad_keys)
  moreover have "\<forall>(k, r) \<in> set (bestByNorad Date_parse rows []).
      r \<in> set rows \<and> hd (nodeb_cols r) = ds_id r"
    using bestByNorad_entries [of _ _ Date_parse rows "[]"]
    by (auto simp: nodeb_cols_def ds_id_def)
  ultimately show ?thesis
    by (simp add: outRows_def nodebOut_def)
qed

theorem object_table_keeps_every_object_witness:
  "map fst (objects example_tables) = [''25544'', ''20580''] \<and>
   outRows (objects example_tables) =
     [join [TAB] (nodeb_cols (rso_row ''0'' ''25544'' ''2024-06-01'' ''6790000'')),
      join [TAB] (nodeb_cols (rso_row ''9'' ''20580'' ''2024-01-01'' ''6790000''))] \<and>
   hd (nodeb_cols (rso_row ''9'' ''20580'' ''2024-01-01'' ''6790000'')) = ''9''"
proof -
  let ?rows = "[rso_row ''0'' ''25544'' ''2024-01-01'' ''6790000'',
      rso_row ''4'' ''25544'' ''2024-06-01'' ''6790000'',
      rso_row ''0'' ''25544'' ''2024-06-01'' ''6790000'',
      rso_row ''9'' ''20580'' ''2024-01-01'' ''6790000'']"
  have "ds_id (rso_row ''9'' ''20580'' ''2024-01-01'' ''6790000'') = ''9''"
    by (simp add: ds_id_def rso_row_def row_get_def or_empty_def trim_def is_ws_def)
  then show ?thesis
    using object_table_keeps_every_object [of iso_date_parse ?rows]
    by (simp add: bestByNorad_example example_tables_def del: bestByNorad.simps)
qed

text \<open>
  Claim C2 as the specification words it fails: for \<^const>\<open>example_js\<close> the only
  descriptor has the code 0, and the object table has a row with the DataSource 9.
\<close>

theorem descriptor_consistency_counterexample:
  "convert iso_date_parse example_js = Inr example_tables \<and>
   map fst (descriptors example_tables) = [''0''] \<and>
   map (\<lambda>(k, r). hd (nodeb_cols r)) (objects example_tables) = [''0'', ''9''] \<and>
   \<not> spec_descriptor_consistent example_tables"
proof -
  have "map (\<lambda>(k, r). hd (nodeb_cols r)) (objects example_tables) = [''0'', ''9'']"
    by (simp add: example_tables_def nodeb_cols_def rso_row_def row_get_def or_empty_def
        trim_def is_ws_def)
  then show ?thesis
    by (simp add: convert_example spec_descriptor_consistent_def example_tables_def
        nodeb_cols_def rso_row_def row_get_def or_empty_def trim_def is_ws_def)
qed

section \<open>Runs of \<^verbatim>\<open>main\<close>\<close>

text \<open>
  Claim C9. \<^const>\<open>main\<close> reads the source file alone and writes the two tables. Two
  runs on file systems with the same source file end alike: both fail with the same
  error, or both succeed and leave the same two tables; and a second run on the
  files the first run left changes nothing. (\<^verbatim>\<open>Date.parse\<close> is the same function
  in both runs: the same engine and time zone.)
\<close>

theorem main_deterministic:
  assumes "fs2 SRC_FILE = fs SRC_FILE"
  shows "case main Date_parse fs of
           Inl e \<Rightarrow> main Date_parse fs2 = Inl e
         | Inr fs' \<Rightarrow>
             main Date_parse fs' = Inr fs' \<and>
             (\<exists>fs2'. main Date_parse fs2 = Inr fs2' \<and>
                fs2' www_data_sources = fs' www_data_sources \<and>
                fs2' www_query_NODEB = fs' www_query_NODEB)"
proof (cases "fs SRC_FILE")
  case None
  with assms show ?thesis by (simp add: main_def)
next
  case (Some js)
  show ?thesis
  proof (cases "convert Date_parse js")
    case (Inl e)
    with Some assms show ?thesis by (simp add: main_def)
  next
    case (Inr t)
    with Some assms show ?thesis by (simp add: main_def)
  qed
qed

theorem main_deterministic_witness:
  "main iso_date_parse [SRC_FILE \<mapsto> example_js] =
     Inr [SRC_FILE \<mapsto> example_js,
          www_data_sources \<mapsto> dsOut (descriptors example_tables),
          www_query_NODEB \<mapsto> nodebOut (objects example_tables)] \<and>
   main iso_date_parse
     [SRC_FILE \<mapsto> example_js,
      www_data_sources \<mapsto> dsOut (descriptors example_tables),
      www_query_NODEB \<mapsto> nodebOut (objects example_tables)] =
     Inr [SRC_FILE \<mapsto> example_js,
          www_data_sources \<mapsto> dsOut (descriptors example_tables),
          www_query_NODEB \<mapsto> nodebOut (objects example_tables)] \<and>
   main iso_date_parse [SRC_FILE \<mapsto> example_js, Other_file ''notes.txt'' \<mapsto> ''x''] =
     Inr [SRC_FILE \<mapsto> example_js, Other_file ''notes.txt'' \<mapsto> ''x'',
          www_data_sources \<mapsto> dsOut (descriptors example_tables),
          www_query_NODEB \<mapsto> nodebOut (objects example_tables)] \<and>
   dsOut (descriptors example_tables) =
     join [LF] [join [TAB] [''Code'', ''Name''], join [TAB] [''0'', ''USSTRATCOM'']]"
proof -
  have m: "main iso_date_parse [SRC_FILE \<mapsto> example_js] =
     Inr [SRC_FILE \<mapsto> example_js,
          www_data_sources \<mapsto> dsOut (descriptors example_tables),
          www_query_NODEB \<mapsto> nodebOut (objects example_tables)]"
    by (simp add: main_def convert_example)
  have m2: "main iso_date_parse [SRC_FILE \<mapsto> example_js, Other_file ''notes.txt'' \<mapsto> ''x''] =
     Inr [SRC_FILE \<mapsto> example_js, Other_file ''notes.txt'' \<mapsto> ''x'',
          www_data_sources \<mapsto> dsOut (descriptors example_tables),
          www_query_NODEB \<mapsto> nodebOut (objects example_tables)]"
    by (simp add: main_def convert_example)
  have d: "dsOut (descriptors example_tables) =
     join [LF] [join [TAB] [''Code'', ''Name''], join [TAB] [''0'', ''USSTRATCOM'']]"
    by (simp add: dsOut_def example_tables_def)
  from main_deterministic [of "[SRC_FILE \<mapsto> example_js, Other_file ''notes.txt'' \<mapsto> ''x'']"
      "[SRC_FILE \<mapsto> example_js]" iso_date_parse] m m2 d
  show ?thesis by simp
qed

section \<open>Numbers as text\<close>

declare ndigits.simps [simp del]

lemma ndigits_bounds:
  "1 \<le> p \<Longrightarrow> 10 ^ (ndigits p - 1) \<le> p \<and> p < 10 ^ ndigits p"
proof (induction p rule: ndigits.induct)
  case (1 x)
  show ?case
  proof (cases "x < 10")
    case True
    with "1.prems" show ?thesis by (simp add: ndigits.simps [of x])
  next
    case False
    then have "1 \<le> x div 10" by simp
    with "1.IH" False have ih: "10 ^ (ndigits (x div 10) - 1) \<le> x div 10"
      "x div 10 < 10 ^ ndigits (x div 10)" by simp_all
    have pos: "0 < ndigits (x div 10)"
      by (simp add: ndigits.simps [of "x div 10"])
    have "10 ^ ndigits (x div 10) = 10 * (10::int) ^ (ndigits (x div 10) - 1)"
      using pos by (cases "ndigits (x div 10)") simp_all
    with ih have "10 ^ ndigits (x div 10) \<le> x" "x < 10 * 10 ^ ndigits (x div 10)"
      by linarith+
    with False show ?thesis by (simp add: ndigits.simps [of x])
  qed
qed

lemma ndigits_pos: "0 < ndigits p"
  by (simp add: ndigits.simps [of p])

lemma powi_diff_nat: "(10::rat) powi (int a - int b) = 10 ^ a / 10 ^ b"
  by (simp add: power_int_diff)

lemma dec_exponent_bounds:
  assumes "0 < v"
  shows "10 powi (dec_exponent v - 1) \<le> v \<and> v < 10 powi dec_exponent v"
proof -
  obtain p q where pq: "quotient_of v = (p, q)" by (cases "quotient_of v")
  then have q: "0 < q" and v: "v = of_int p / of_int q"
    by (simp_all add: quotient_of_denom_pos quotient_of_div)
  with assms have p: "1 \<le> p"
    by (simp add: zero_less_divide_iff)
  let ?d = "int (ndigits p) - int (ndigits q)"
  from ndigits_bounds [OF p] have pb: "(10::rat) ^ (ndigits p - 1) \<le> of_int p" "of_int p < (10::rat) ^ ndigits p"
    by (metis of_int_le_iff of_int_numeral of_int_power, metis of_int_less_iff of_int_numeral of_int_power)
  from q have "1 \<le> q" by simp
  from ndigits_bounds [OF this] have qb: "(10::rat) ^ (ndigits q - 1) \<le> of_int q" "of_int q < (10::rat) ^ ndigits q"
    by (metis of_int_le_iff of_int_numeral of_int_power, metis of_int_less_iff of_int_numeral of_int_power)
  have qpos: "(0::rat) < of_int q" using q by simp
  obtain mp where mp: "ndigits p = Suc mp"
    using ndigits_pos [of p] by (cases "ndigits p") simp_all
  obtain mq where mq: "ndigits q = Suc mq"
    using ndigits_pos [of q] by (cases "ndigits q") simp_all
  have low: "10 powi (?d - 1) \<le> v"
  proof -
    have "?d - 1 = int mp - int (Suc mq)" by (simp add: mp mq)
    then have "10 powi (?d - 1) = (10::rat) ^ mp / 10 ^ Suc mq"
      by (simp only: powi_diff_nat)
    also have "\<dots> \<le> of_int p / 10 ^ Suc mq"
      using pb(1) by (simp add: divide_right_mono mp)
    also have "\<dots> \<le> of_int p / of_int q"
      using qb(2) qpos p by (simp add: frac_le mq)
    finally show ?thesis by (simp add: v)
  qed
  have high: "v < 10 powi (?d + 1)"
  proof -
    have "v = of_int p / of_int q" by (rule v)
    also have "\<dots> < 10 ^ Suc mp / of_int q"
      using pb(2) qpos by (simp add: divide_strict_right_mono mp)
    also have "\<dots> \<le> 10 ^ Suc mp / (10::rat) ^ mq"
      using qb(1) by (simp add: frac_le mq)
    also have "\<dots> = 10 powi (int (Suc mp) - int mq)"
      by (simp only: powi_diff_nat)
    also have "int (Suc mp) - int mq = ?d + 1" by (simp add: mp mq)
    finally show ?thesis .
  qed
  show ?thesis
    using low high by (simp add: dec_exponent_def pq Let_def not_le)
qed

lemma digits_at_n:
  assumes "digits_at v n0 k = Some (s, n)"
  shows "n = n0 \<or> (n = n0 + 1 \<and> number_value (10 powi n0) = Fin v)"
proof -
  define scale :: rat where "scale = 10 powi (n0 - int k)"
  define lo where "lo = \<lfloor>v / scale\<rfloor>"
  have scale: "10 ^ k * scale = 10 powi n0"
  proof -
    have "(10::rat) powi n0 = 10 powi (int k + (n0 - int k))" by simp
    also have "\<dots> = 10 powi int k * 10 powi (n0 - int k)"
      by (rule power_int_add) simp
    finally show ?thesis by (simp add: scale_def)
  qed
  from assms have "n = n0 \<or>
      (n = n0 + 1 \<and> lo + 1 = 10 ^ k \<and> number_value (of_int (lo + 1) * scale) = Fin v)"
    unfolding digits_at_def Let_def scale_def [symmetric] lo_def [symmetric]
    by (simp split: if_splits)
  then show ?thesis
  proof
    assume "n = n0"
    then show ?thesis by simp
  next
    assume h: "n = n0 + 1 \<and> lo + 1 = 10 ^ k \<and> number_value (of_int (lo + 1) * scale) = Fin v"
    then have "rat_of_int (lo + 1) = rat_of_int (10 ^ k)" by (simp only:)
    then have "of_int (lo + 1) * scale = 10 ^ k * scale" by simp
    then have e: "of_int (lo + 1) * scale = 10 powi n0" by (simp only: scale)
    from h have "number_value (of_int (lo + 1) * scale) = Fin v" by blast
    then have "number_value (10 powi n0) = Fin v" unfolding e .
    with h show ?thesis by blast
  qed
qed

lemma first_digits_props:
  "first_digits v n0 ks = Some (k, s, n) \<Longrightarrow>
   k \<in> set ks \<and> (n = n0 \<or> (n = n0 + 1 \<and> number_value (10 powi n0) = Fin v))"
proof (induction ks)
  case Nil
  then show ?case by simp
next
  case (Cons a ks)
  show ?case
  proof (cases "digits_at v n0 a")
    case None
    with Cons show ?thesis by simp
  next
    case (Some sn)
    obtain s' n' where sn: "sn = (s', n')" by (cases sn)
    with Some Cons.prems have "k = a" "s = s'" "n = n'" by simp_all
    with Some sn digits_at_n [of v n0 a s' n'] show ?thesis by simp
  qed
qed

lemma shortest_digits_props:
  assumes "shortest_digits v = (k, s, n)"
  shows "1 \<le> k \<and> k \<le> 17 \<and>
         (n = dec_exponent v \<or>
          (n = dec_exponent v + 1 \<and> number_value (10 powi dec_exponent v) = Fin v))"
proof (cases "first_digits v (dec_exponent v) [1..<18]")
  case None
  with assms show ?thesis by (simp add: shortest_digits_def Let_def)
next
  case (Some r)
  with assms have "first_digits v (dec_exponent v) [1..<18] = Some (k, s, n)"
    by (simp add: shortest_digits_def Let_def)
  from first_digits_props [OF this] show ?thesis by auto
qed

lemma is_digit_digit_char: "is_digit (digit_char d)"
proof -
  have "nat (d mod 10) < length ''0123456789''" by simp
  then have "''0123456789'' ! nat (d mod 10) \<in> set ''0123456789''"
    by (rule nth_mem)
  then show ?thesis by (simp only: is_digit_def digit_char_def)
qed

lemma dec_digits_props: "length (dec_digits k s) = k \<and> list_all is_digit (dec_digits k s)"
  by (simp add: dec_digits_def list_all_iff is_digit_digit_char)

lemma not_digit: "\<not> is_digit (CHR ''.'')" "\<not> is_digit (CHR ''-'')" "is_digit (CHR ''0'')"
  by (simp_all add: is_digit_def)

lemma is_digit_not_minus: "is_digit c \<Longrightarrow> c \<noteq> CHR ''-''"
  using not_digit(2) by auto

lemma takeWhile_all: "list_all P xs \<Longrightarrow> takeWhile P xs = xs \<and> dropWhile P xs = []"
  by (simp add: list_all_iff)

lemma plain_decimal_digits:
  assumes "list_all is_digit ds" and "ds \<noteq> []"
  shows "plain_decimal ds"
proof -
  obtain c r where ds: "ds = c # r" using assms(2) by (cases ds) simp_all
  with assms(1) have c: "c \<noteq> CHR ''-''" by (simp add: is_digit_not_minus)
  have u: "(case ds of c # r \<Rightarrow> if c = CHR ''-'' then r else ds | [] \<Rightarrow> ds) = ds"
    using c by (simp add: ds)
  have t: "takeWhile is_digit ds = ds" and d: "dropWhile is_digit ds = []"
    using takeWhile_all [OF assms(1)] by blast+
  show ?thesis
    unfolding plain_decimal_def Let_def u t d
    using assms(2) by simp
qed

lemma plain_decimal_point:
  assumes "list_all is_digit a" and "a \<noteq> []" and "list_all is_digit b" and "b \<noteq> []"
  shows "plain_decimal (a @ ''.'' @ b)"
proof -
  let ?s = "a @ ''.'' @ b"
  obtain c r where a: "a = c # r" using assms(2) by (cases a) simp_all
  with assms(1) have c: "c \<noteq> CHR ''-''" by (simp add: is_digit_not_minus)
  have u: "(case ?s of c # r \<Rightarrow> if c = CHR ''-'' then r else ?s | [] \<Rightarrow> ?s) = ?s"
    using c by (simp add: a)
  have t: "takeWhile is_digit ?s = a"
    using assms(1) not_digit(1) by (simp add: list_all_iff takeWhile_append2)
  have d: "dropWhile is_digit ?s = ''.'' @ b"
    using assms(1) not_digit(1) by (simp add: list_all_iff dropWhile_append2)
  show ?thesis
    unfolding plain_decimal_def Let_def u t d
    using assms by simp
qed

lemma plain_decimal_minus:
  assumes "plain_decimal s" and "s \<noteq> []" and "is_digit (hd s)"
  shows "plain_decimal (CHR ''-'' # s)"
proof -
  obtain c r where s: "s = c # r" using assms(2) by (cases s) simp_all
  with assms(3) have c: "c \<noteq> CHR ''-''" by (simp add: is_digit_not_minus)
  have "(case s of c # r \<Rightarrow> if c = CHR ''-'' then r else s | [] \<Rightarrow> s) = s"
    using c by (simp add: s)
  with assms(1) show ?thesis
    unfolding plain_decimal_def Let_def by simp
qed

lemma pos_toString_plain:
  assumes "shortest_digits v = (k, s, n)" and "- 6 < n" and "n \<le> 21"
  shows "plain_decimal (pos_toString v) \<and> pos_toString v \<noteq> [] \<and> is_digit (hd (pos_toString v))"
proof -
  let ?ds = "dec_digits k s"
  from shortest_digits_props [OF assms(1)] have k: "1 \<le> k" by simp
  have len: "length ?ds = k" and dig: "list_all is_digit ?ds"
    using dec_digits_props by simp_all
  have ne: "?ds \<noteq> []" using len k by auto
  have hd_ds: "is_digit (hd ?ds)"
    using dig ne by (cases ?ds) simp_all
  consider (int) "int k \<le> n" | (mid) "0 < n" "n < int k" | (small) "n \<le> 0"
    by linarith
  then show ?thesis
  proof cases
    case int
    let ?r = "?ds @ replicate (nat (n - int k)) (CHR ''0'')"
    have "list_all is_digit ?r"
      using dig not_digit(3) by (auto simp: list_all_iff)
    moreover have "?r \<noteq> []" using ne by simp
    moreover have "hd ?r = hd ?ds" using ne by simp
    moreover have "pos_toString v = ?r"
      using int assms by (simp add: pos_toString_def Let_def)
    ultimately show ?thesis
      using plain_decimal_digits [of ?r] hd_ds by simp
  next
    case mid
    let ?a = "take (nat n) ?ds" and ?b = "drop (nat n) ?ds"
    have a: "list_all is_digit ?a" "?a \<noteq> []"
      using dig ne mid by (auto simp: list_all_iff dest: in_set_takeD)
    have b: "list_all is_digit ?b" "?b \<noteq> []"
      using dig len mid by (auto simp: list_all_iff dest: in_set_dropD)
    have "hd (?a @ ''.'' @ ?b) = hd ?ds"
      using a(2) mid by (simp add: hd_append)
    moreover have "pos_toString v = ?a @ ''.'' @ ?b"
      using mid assms by (simp add: pos_toString_def Let_def)
    ultimately show ?thesis
      using plain_decimal_point [OF a b] hd_ds a(2) by simp
  next
    case small
    let ?b = "replicate (nat (- n)) (CHR ''0'') @ ?ds"
    have b: "list_all is_digit ?b" "?b \<noteq> []"
      using dig ne not_digit(3) by (auto simp: list_all_iff)
    have z: "list_all is_digit ''0''" "''0'' \<noteq> []"
      using not_digit(3) by simp_all
    have "pos_toString v = ''0'' @ ''.'' @ ?b"
      using small assms k by (simp add: pos_toString_def Let_def)
    then show ?thesis
      using plain_decimal_point [OF z b] not_digit(3) by simp
  qed
qed

lemma pos_toString_exponential:
  assumes "shortest_digits v = (k, s, n)" and "n \<le> - 6 \<or> 21 < n"
  shows "CHR ''e'' \<in> set (pos_toString v)"
proof -
  from shortest_digits_props [OF assms(1)] have k: "1 \<le> k" by simp
  from assms(2) k have c: "(int k \<le> n \<and> n \<le> 21) = False" "(0 < n \<and> n \<le> 21) = False"
    "(- 6 < n \<and> n \<le> 0) = False"
    by auto
  show ?thesis
    unfolding pos_toString_def assms(1) Let_def prod.case c by simp
qed

lemma powi_less_imp_less: "(10::rat) powi m < 10 powi n \<Longrightarrow> m < n"
proof (rule ccontr)
  assume lt: "(10::rat) powi m < 10 powi n" and "\<not> m < n"
  then have "n \<le> m" by simp
  then have "(10::rat) powi n \<le> 10 powi m"
    by (rule power_int_increasing) simp
  with lt show False by simp
qed

lemma number_value_1e21:
  "number_value 1000000000000000000000 = Fin 1000000000000000000000"
  by code_simp

lemma shortest_digits_plain_range:
  assumes "shortest_digits v = (k, s, n)" and "1 / 10 ^ 6 \<le> v" and "v < 10 ^ 21"
  shows "- 6 < n \<and> n \<le> 21"
proof -
  let ?n0 = "dec_exponent v"
  have pos: "0 < v" using assms(2) by (simp add: less_le_trans [of 0 "1 / 10 ^ 6"])
  from dec_exponent_bounds [OF pos]
  have lo: "10 powi (?n0 - 1) \<le> v" and hi: "v < 10 powi ?n0" by simp_all
  have "(10::rat) powi (- 6) \<le> v" using assms(2) by (simp add: power_int_minus_divide)
  with hi have "(10::rat) powi (- 6) < 10 powi ?n0" by simp
  then have a: "- 6 < ?n0" by (rule powi_less_imp_less)
  have "(10::rat) powi (?n0 - 1) < 10 powi 21" using lo assms(3) by simp
  then have b: "?n0 - 1 < 21" by (rule powi_less_imp_less)
  from shortest_digits_props [OF assms(1)]
  have "n = ?n0 \<or> (n = ?n0 + 1 \<and> number_value (10 powi ?n0) = Fin v)" by simp
  then show ?thesis
  proof
    assume "n = ?n0"
    with a b show ?thesis by simp
  next
    assume h: "n = ?n0 + 1 \<and> number_value (10 powi ?n0) = Fin v"
    have "?n0 \<noteq> 21"
    proof
      assume "?n0 = 21"
      with h have "number_value (10 powi 21) = Fin v" by simp
      with assms(3) show False by (simp add: number_value_1e21)
    qed
    with a b h show ?thesis by simp
  qed
qed

lemma shortest_digits_exponential_range:
  assumes "shortest_digits v = (k, s, n)" and "0 < v" and "v < 1 / 10 ^ 7 \<or> 10 ^ 21 \<le> v"
  shows "n \<le> - 6 \<or> 21 < n"
proof -
  let ?n0 = "dec_exponent v"
  from dec_exponent_bounds [OF assms(2)]
  have lo: "10 powi (?n0 - 1) \<le> v" and hi: "v < 10 powi ?n0" by simp_all
  from shortest_digits_props [OF assms(1)]
  have n: "?n0 \<le> n" "n \<le> ?n0 + 1" by auto
  from assms(3) show ?thesis
  proof
    assume "v < 1 / 10 ^ 7"
    then have "v < 10 powi (- 7)" by (simp add: power_int_minus_divide)
    with lo have "(10::rat) powi (?n0 - 1) < 10 powi (- 7)" by simp
    then have "?n0 - 1 < - 7" by (rule powi_less_imp_less)
    with n show ?thesis by simp
  next
    assume "10 ^ 21 \<le> v"
    with hi have "(10::rat) powi 21 < 10 powi ?n0" by simp
    then have "21 < ?n0" by (rule powi_less_imp_less)
    with n show ?thesis by simp
  qed
qed

lemma dec_digits_chars: "set (dec_digits k s) \<subseteq> set ''0123456789''"
proof -
  have "\<forall>c \<in> set (dec_digits k s). is_digit c"
    using dec_digits_props [of k s] by (simp add: list_all_iff)
  then show ?thesis
    unfolding is_digit_def by blast
qed

lemma pos_toString_chars: "set (pos_toString v) \<subseteq> set ''0123456789.e+-''"
proof -
  define A where "A = set ''0123456789.e+-''"
  obtain k s n where ksn: "shortest_digits v = (k, s, n)" by (cases "shortest_digits v")
  have m: "CHR ''.'' \<in> A" "CHR ''e'' \<in> A" "CHR ''-'' \<in> A" "CHR ''+'' \<in> A" "CHR ''0'' \<in> A"
    by (simp_all add: A_def)
  have dA: "set ''0123456789'' \<subseteq> A" by (simp add: A_def)
  have d: "set (dec_digits k' s') \<subseteq> A" for k' s'
    using dA dec_digits_chars [of k' s'] by blast
  have e: "set (dec_string x) \<subseteq> A" for x
    unfolding dec_string_def by (rule d)
  have t: "set (take i (dec_digits k' s')) \<subseteq> A" for i k' s'
    using d [of k' s'] set_take_subset [of i "dec_digits k' s'"] by blast
  have r: "set (drop i (dec_digits k' s')) \<subseteq> A" for i k' s'
    using d [of k' s'] set_drop_subset [of i "dec_digits k' s'"] by blast
  have z: "set (replicate i (CHR ''0'')) \<subseteq> A" for i
    using m(5) by (induction i) simp_all
  have "set (pos_toString v) \<subseteq> A"
    unfolding pos_toString_def ksn Let_def prod.case
    by (simp add: d e t r z m)
  then show ?thesis by (simp only: A_def)
qed

lemma Number_toString_examples:
  "Number_toString (Fin 6790000) = ''6790000''"
  "Number_toString (Fin 1000000000000000000000) = ''1e+21''"
  "Number_toString (number_value (1 / 10 ^ 7)) = ''1e-7''"
  by code_simp+

lemma rowFromCelestrak_example:
  "rowFromCelestrak Math_cbrt example_gp =
     join [TAB] [''USSTRATCOM'', ''INTELSAT 901'', [], ''2001-024A'', ''26824'',
       [], [], [], [], [], [], [], [], [], [], [], [], [],
       ''2024-06-01T00:00:00.000000'', [], ''1e-7'', ''0'', ''0'', ''0'', ''0'']"
  by code_simp

text \<open>
  Claim C8, as the code has it. A finite Number in a row of \<^verbatim>\<open>rowFromCelestrak\<close>
  is written by \<^verbatim>\<open>String(v)\<close>. The text has no character but digits, a point, a
  minus sign and, in exponential notation, \<^verbatim>\<open>e\<close> with a sign: no separator of any
  locale. It is a plain decimal when the value is 0 or its magnitude is at least
  \<^verbatim>\<open>0.000001\<close> and below \<^verbatim>\<open>1e21\<close>; it is in exponential notation when the
  magnitude is positive and below \<^verbatim>\<open>1e-7\<close>, or at least \<^verbatim>\<open>1e21\<close>.
\<close>

theorem finite_number_serialization:
  "ToString (cell (Num (Fin v))) = Number_toString (Fin v) \<and>
   set (Number_toString (Fin v)) \<subseteq> set ''0123456789.e+-'' \<and>
   (v = 0 \<or> (1 / 10 ^ 6 \<le> \<bar>v\<bar> \<and> \<bar>v\<bar> < 10 ^ 21) \<longrightarrow>
      plain_decimal (Number_toString (Fin v))) \<and>
   ((0 < \<bar>v\<bar> \<and> \<bar>v\<bar> < 1 / 10 ^ 7) \<or> 10 ^ 21 \<le> \<bar>v\<bar> \<longrightarrow>
      CHR ''e'' \<in> set (Number_toString (Fin v)))"
proof -
  have ser: "ToString (cell (Num (Fin v))) = Number_toString (Fin v)"
    by (simp add: cell_def ToString_def isFinite_def)
  have chars: "set (Number_toString (Fin v)) \<subseteq> set ''0123456789.e+-''"
  proof -
    have "set (CHR ''-'' # pos_toString (- v)) \<subseteq> set ''0123456789.e+-''"
      using pos_toString_chars [of "- v"] by simp
    then show ?thesis
      using pos_toString_chars [of v] by (simp add: Number_toString_def)
  qed
  have plain: "plain_decimal (Number_toString (Fin v))"
    if "v = 0 \<or> (1 / 10 ^ 6 \<le> \<bar>v\<bar> \<and> \<bar>v\<bar> < 10 ^ 21)"
  proof (cases "v = 0")
    case True
    have "plain_decimal ''0''"
      by (rule plain_decimal_digits) (simp_all add: not_digit)
    with True show ?thesis by (simp add: Number_toString_def)
  next
    case False
    with that have range: "1 / 10 ^ 6 \<le> \<bar>v\<bar>" "\<bar>v\<bar> < 10 ^ 21" by simp_all
    obtain k s n where ksn: "shortest_digits \<bar>v\<bar> = (k, s, n)"
      by (cases "shortest_digits \<bar>v\<bar>")
    from shortest_digits_plain_range [OF ksn range] have "- 6 < n" "n \<le> 21" by simp_all
    from pos_toString_plain [OF ksn this]
    have p: "plain_decimal (pos_toString \<bar>v\<bar>)" "pos_toString \<bar>v\<bar> \<noteq> []"
      "is_digit (hd (pos_toString \<bar>v\<bar>))" by simp_all
    show ?thesis
    proof (cases "v < 0")
      case True
      then have "Number_toString (Fin v) = CHR ''-'' # pos_toString \<bar>v\<bar>"
        by (simp add: Number_toString_def)
      with plain_decimal_minus [OF p] show ?thesis by simp
    next
      case False
      with \<open>v \<noteq> 0\<close> have "Number_toString (Fin v) = pos_toString \<bar>v\<bar>"
        by (simp add: Number_toString_def)
      with p(1) show ?thesis by simp
    qed
  qed
  have expo: "CHR ''e'' \<in> set (Number_toString (Fin v))"
    if "(0 < \<bar>v\<bar> \<and> \<bar>v\<bar> < 1 / 10 ^ 7) \<or> 10 ^ 21 \<le> \<bar>v\<bar>"
  proof -
    from that have pos: "0 < \<bar>v\<bar>" and range: "\<bar>v\<bar> < 1 / 10 ^ 7 \<or> 10 ^ 21 \<le> \<bar>v\<bar>"
      by (auto simp: less_le_trans [of 0 "10 ^ 21"])
    obtain k s n where ksn: "shortest_digits \<bar>v\<bar> = (k, s, n)"
      by (cases "shortest_digits \<bar>v\<bar>")
    from shortest_digits_exponential_range [OF ksn pos range]
    have e: "CHR ''e'' \<in> set (pos_toString \<bar>v\<bar>)"
      by (rule pos_toString_exponential [OF ksn])
    show ?thesis
    proof (cases "v < 0")
      case True
      then have "Number_toString (Fin v) = CHR ''-'' # pos_toString \<bar>v\<bar>"
        by (simp add: Number_toString_def)
      with e show ?thesis by simp
    next
      case False
      with pos have "Number_toString (Fin v) = pos_toString \<bar>v\<bar>"
        by (simp add: Number_toString_def)
      with e show ?thesis by simp
    qed
  qed
  from ser chars plain expo show ?thesis by blast
qed

theorem finite_number_serialization_witness:
  "ToString (cell (Num (Fin 6790000))) = ''6790000'' \<and>
   plain_decimal ''6790000'' \<and>
   ToString (cell (Num (Fin 1000000000000000000000))) = ''1e+21'' \<and>
   set ''1e+21'' \<subseteq> set ''0123456789.e+-''"
  using finite_number_serialization [of 6790000]
    finite_number_serialization [of 1000000000000000000000]
  by (simp add: Number_toString_examples)

text \<open>
  Claim C8 as the specification words it, with plain decimals only, fails: an
  eccentricity of \<^verbatim>\<open>1e-7\<close> is written \<^verbatim>\<open>1e-7\<close>.
\<close>

theorem plain_decimal_counterexample:
  "ECCENTRICITY example_gp = Num (number_value (1 / 10 ^ 7)) \<and>
   ToString (cell (toNum (ECCENTRICITY example_gp))) = ''1e-7'' \<and>
   \<not> plain_decimal ''1e-7''"
proof -
  have "ToString (cell (toNum (ECCENTRICITY example_gp))) = ''1e-7''"
    by code_simp
  moreover have "\<not> plain_decimal ''1e-7''"
    by (simp add: plain_decimal_def is_digit_def)
  ultimately show ?thesis
    by (simp add: example_gp_def)
qed

section \<open>The semi-major axis from the mean motion\<close>

lemma js_le_greater: "isFinite n \<Longrightarrow> js_le n (Fin 0) \<longleftrightarrow> \<not> js_greater n (Fin 0)"
  by (cases n) (auto simp: js_le_def js_greater_def isFinite_def)

text \<open>
  Claim C6. With \<open>n\<close> the Number of the argument: when \<open>n\<close> is not finite or
  \<open>n \<le> 0\<close>, \<^verbatim>\<open>smaFromMeanMotionRevPerDay\<close> returns the empty string, which is neither
  the Number 0 nor \<^verbatim>\<open>NaN\<close>; in the one other case, \<open>n\<close> finite and above 0, it
  returns \<^verbatim>\<open>Math.cbrt\<close> of \<open>\<mu> / (\<omega> * \<omega>)\<close> for \<open>\<omega> = n * 2 * \<pi> / 86400\<close> and
  \<open>\<mu> = 3.986004418e14\<close>, every operation being the one of doubles.
\<close>

theorem sma_domain_policy:
  "(\<not> isFinite (ToNumber x) \<or> js_le (ToNumber x) (Fin 0) \<longrightarrow>
      smaFromMeanMotionRevPerDay Math_cbrt x = Str [] \<and>
      smaFromMeanMotionRevPerDay Math_cbrt x \<noteq> Num (Fin 0) \<and>
      smaFromMeanMotionRevPerDay Math_cbrt x \<noteq> Num NaN) \<and>
   (\<not> (\<not> isFinite (ToNumber x) \<or> js_le (ToNumber x) (Fin 0)) \<longrightarrow>
      isFinite (ToNumber x) \<and> js_greater (ToNumber x) (Fin 0) \<and>
      smaFromMeanMotionRevPerDay Math_cbrt x =
        Num (Math_cbrt (js_div MU_EARTH
          (js_mul (js_div (js_mul (js_mul (ToNumber x) (Fin 2)) Math_PI) (Fin 86400))
                  (js_div (js_mul (js_mul (ToNumber x) (Fin 2)) Math_PI) (Fin 86400))))))"
proof (cases "\<not> isFinite (ToNumber x) \<or> js_le (ToNumber x) (Fin 0)")
  case True
  then show ?thesis
    by (simp add: smaFromMeanMotionRevPerDay_def Let_def)
next
  case False
  then have "isFinite (ToNumber x)" "js_greater (ToNumber x) (Fin 0)"
    using js_le_greater [of "ToNumber x"] by auto
  with False show ?thesis
    by (simp add: smaFromMeanMotionRevPerDay_def Let_def)
qed

theorem sma_domain_policy_witness:
  "smaFromMeanMotionRevPerDay example_cbrt (Num (Fin 0)) = Str [] \<and>
   smaFromMeanMotionRevPerDay example_cbrt (Str ''abc'') = Str [] \<and>
   smaFromMeanMotionRevPerDay example_cbrt (Num NInf) = Str [] \<and>
   smaFromMeanMotionRevPerDay example_cbrt (Str ''15.5'') = Num (Fin 6794863)"
proof -
  have n: "ToNumber (Num (Fin 0)) = Fin 0" "ToNumber (Str ''abc'') = NaN"
    "ToNumber (Num NInf) = NInf"
    by code_simp+
  have v: "smaFromMeanMotionRevPerDay example_cbrt (Str ''15.5'') = Num (Fin 6794863)"
    by code_simp
  from sma_domain_policy [of "Num (Fin 0)" example_cbrt]
    sma_domain_policy [of "Str ''abc''" example_cbrt]
    sma_domain_policy [of "Num NInf" example_cbrt]
    sma_domain_policy [of "Str ''15.5''" example_cbrt]
  show ?thesis
    by (simp add: n v isFinite_def js_le_def js_greater_def)
qed

end
